(* ===== verification/Prelude.thy ===== *)
theory Prelude
  imports Main "HOL-Library.Word"
begin

text \<open>
  The vocabulary every component shares: bytes and the wider unsigned integers of Go, the
  two built-ins on slices that cannot fail (\<open>copy\<close> and \<open>make\<close> followed by \<open>copy\<close>),
  and \<open>encoding/binary\<close>'s big-endian routines with the laws that make them codecs.  The
  locale \<open>fixed_codec\<close> states what a fixed-width codec promises; the 16-bit and the
  32-bit routines are both interpreted as one.
\<close>

unbundle bit_operations_syntax

named_theorems wire_simps \<open>equations that evaluate offsets and lengths in a report\<close>
named_theorems go_bind \<open>elimination of sequenced computations\<close>

section \<open>Types\<close>

type_synonym byte = "8 word"
type_synonym u16 = "16 word"
type_synonym u32 = "32 word"
type_synonym u64 = "64 word"
type_synonym bytes = "byte list"

text \<open>A Go string is a sequence of bytes; \<open>char\<close> is exactly a byte.\<close>

abbreviation bytes_of_string :: "string \<Rightarrow> bytes" where
  "bytes_of_string s \<equiv> map of_char s"

section \<open>Slices\<close>

text \<open>\<open>make([]byte, n)\<close> is all zeroes.\<close>

abbreviation make_bytes :: "nat \<Rightarrow> bytes" where
  "make_bytes n \<equiv> replicate n 0"

text \<open>
  \<open>copy(dst, src)\<close> writes \<open>min(len(dst), len(src))\<close> elements and leaves the rest of
  \<open>dst\<close> alone; \<open>copy_at i dst src\<close> is \<open>copy(dst[i:], src)\<close>.
\<close>

definition go_copy :: "'a list \<Rightarrow> 'a list \<Rightarrow> 'a list" where
  "go_copy dst src = take (length dst) src @ drop (length src) dst"

definition copy_at :: "nat \<Rightarrow> 'a list \<Rightarrow> 'a list \<Rightarrow> 'a list" where
  "copy_at i dst src = take i dst @ go_copy (drop i dst) src"

text \<open>What \<open>copy\<close> returns: how many elements it wrote.\<close>

definition copy_count :: "nat \<Rightarrow> 'a list \<Rightarrow> 'a list \<Rightarrow> nat" where
  "copy_count i dst src = min (length dst - i) (length src)"

lemma take_drop_append [simp]: "take n xs @ drop n xs @ ys = xs @ ys"
  by (simp flip: append_assoc)

lemma cut_twice: "xs = take m xs @ take n (drop m xs) @ drop (m + n) xs"
  by (metis add.commute append_take_drop_id drop_drop)

lemma drop_nth_Cons: "i < length xs \<Longrightarrow> drop i xs = xs ! i # drop (Suc i) xs"
  by (rule Cons_nth_drop_Suc [symmetric])

lemma length_go_copy [simp]: "length (go_copy dst src) = length dst"
  by (simp add: go_copy_def)

lemma length_copy_at [simp]: "length (copy_at i dst src) = length dst"
  by (simp add: copy_at_def)

lemma go_copy_same_length [simp]: "length src = length dst \<Longrightarrow> go_copy dst src = src"
  by (simp add: go_copy_def)

lemma go_copy_Nil [simp]: "go_copy dst [] = dst"
  by (simp add: go_copy_def)

lemma go_copy_shorter: "length src \<le> length dst \<Longrightarrow> go_copy dst src = src @ drop (length src) dst"
  by (simp add: go_copy_def)

text \<open>Copying into zeroes keeps a prefix of the source and pads it.\<close>

lemma go_copy_zeroes: "go_copy (replicate n z) src = take n src @ replicate (n - length src) z"
  by (simp add: go_copy_def)

lemma take_copy_at [simp]: "i \<le> length dst \<Longrightarrow> take i (copy_at i dst src) = take i dst"
  by (simp add: copy_at_def)

lemma drop_copy_at [simp]:
  "i \<le> length dst \<Longrightarrow> drop i (copy_at i dst src) = go_copy (drop i dst) src"
  by (simp add: copy_at_def)

section \<open>Big-endian integers\<close>

text \<open>\<open>binary.BigEndian.PutUint16\<close> and \<open>PutUint32\<close> as the bytes they store.\<close>

definition PutUint16 :: "u16 \<Rightarrow> bytes" where
  "PutUint16 v = [ucast (drop_bit 8 v), ucast v]"

definition PutUint32 :: "u32 \<Rightarrow> bytes" where
  "PutUint32 v = [ucast (drop_bit 24 v), ucast (drop_bit 16 v), ucast (drop_bit 8 v), ucast v]"

text \<open>The readers look at the first two or four bytes; they are only called on slices of
  exactly that length, and on anything shorter the \<open>Outcome\<close> theory makes them panic.\<close>

fun get16 :: "bytes \<Rightarrow> u16" where
  "get16 (a # b # _) = ucast b OR push_bit 8 (ucast a)"
| "get16 _ = 0"

fun get32 :: "bytes \<Rightarrow> u32" where
  "get32 (a # b # c # d # _) =
     ucast d OR push_bit 8 (ucast c) OR push_bit 16 (ucast b) OR push_bit 24 (ucast a)"
| "get32 _ = 0"

lemma length_PutUint16 [simp]: "length (PutUint16 v) = 2"
  by (simp add: PutUint16_def)

lemma length_PutUint32 [simp]: "length (PutUint32 v) = 4"
  by (simp add: PutUint32_def)

lemma get16_Put: "get16 (PutUint16 v) = v"
  unfolding PutUint16_def
  by (simp, rule bit_word_eqI) (auto simp: bit_simps not_less)

lemma get32_Put: "get32 (PutUint32 v) = v"
proof (rule bit_word_eqI)
  fix n
  assume "n < LENGTH(32)"
  then consider "n < 8" | "8 \<le> n" "n < 16" | "16 \<le> n" "n < 24" | "24 \<le> n" "n < 32"
    by force
  then show "bit (get32 (PutUint32 v)) n = bit v n"
    by cases (auto simp: PutUint32_def bit_simps)
qed

lemma bit_byte_beyond [simp]: "8 \<le> n \<Longrightarrow> \<not> bit (b :: byte) n"
  by (auto dest: bit_imp_le_length)

lemma Put_get16: "PutUint16 (get16 [a, b]) = [a, b]"
  by (auto simp: PutUint16_def bit_simps intro!: bit_word_eqI)

lemma Put_get32: "PutUint32 (get32 [a, b, c, d]) = [a, b, c, d]"
  by (auto simp: PutUint32_def bit_simps intro!: bit_word_eqI)

text \<open>
  What a codec of fixed width promises: every value is written in \<open>width\<close> bytes, reading
  undoes writing, and writing undoes reading.
\<close>

locale fixed_codec =
  fixes width :: nat
    and put :: "'v \<Rightarrow> bytes"
    and get :: "bytes \<Rightarrow> 'v"
  assumes length_put: "length (put v) = width"
    and get_put: "get (put v) = v"
    and put_get: "length bs = width \<Longrightarrow> put (get bs) = bs"
begin

lemma put_inject: "put v = put w \<longleftrightarrow> v = w"
  by (metis get_put)

lemma put_append_inject: "put v @ xs = put w @ ys \<longleftrightarrow> v = w \<and> xs = ys"
  by (auto simp: append_eq_append_conv length_put put_inject)

lemma get_eq_iff: "length bs = width \<Longrightarrow> get bs = v \<longleftrightarrow> bs = put v"
  by (metis get_put put_get)

lemma get_take_append: "get (take width (put v @ rest)) = v"
  by (simp add: length_put get_put)

lemma split_off:
  assumes "width \<le> length bs"
  shows "bs = put (get (take width bs)) @ drop width bs"
  using assms by (simp add: put_get)

end

lemma length_2_cases: "length xs = 2 \<longleftrightarrow> (\<exists>a b. xs = [a, b])"
  by (auto simp: length_Suc_conv numeral_2_eq_2)

lemma length_4_cases: "length xs = 4 \<longleftrightarrow> (\<exists>a b c d. xs = [a, b, c, d])"
  by (auto simp: length_Suc_conv numeral_eq_Suc)

interpretation be16: fixed_codec 2 PutUint16 get16
  by unfold_locales (auto simp: get16_Put length_2_cases Put_get16 simp del: get16.simps)

interpretation be32: fixed_codec 4 PutUint32 get32
  by unfold_locales (auto simp: get32_Put length_4_cases Put_get32 simp del: get32.simps)

section \<open>Bits of a byte\<close>

text \<open>
  A type of flags is a byte with a subset test, \<open>Has\<close>: every bit of \<open>want\<close> is set in
  \<open>have\<close>.  The laws make it a partial order with the empty set of flags below everything.
\<close>

locale flag_set =
  fixes has :: "byte \<Rightarrow> byte \<Rightarrow> bool"
  assumes has_iff: "has have want \<longleftrightarrow> (\<forall>n < 8. bit want n \<longrightarrow> bit have n)"
begin

lemma has_none: "has f 0"
  by (simp add: has_iff)

lemma has_self: "has f f"
  by (simp add: has_iff)

lemma has_trans: "has f g \<Longrightarrow> has g h \<Longrightarrow> has f h"
  by (auto simp: has_iff)

lemma has_antisym: "has f g \<Longrightarrow> has g f \<Longrightarrow> f = g"
  by (rule bit_word_eqI) (auto simp: has_iff)

lemma has_or: "has f (a OR b) \<longleftrightarrow> has f a \<and> has f b"
  by (auto simp: has_iff bit_simps)

lemma has_bit: "n < 8 \<Longrightarrow> has f (push_bit n 1) \<longleftrightarrow> bit f n"
  by (auto simp: has_iff bit_simps bit_1_iff)

end

lemma and_eq_iff_bits: "(f AND w = (w :: byte)) \<longleftrightarrow> (\<forall>n < 8. bit w n \<longrightarrow> bit f n)"
  by (auto simp: bit_eq_iff bit_simps dest: bit_imp_le_length)

end
