(* ===== verification/Outcome.thy ===== *)
theory Outcome
  imports Prelude
begin

text \<open>
  How a call ends.  A Go function returns a value or an error, or panics; an \<open>outcome\<close> is
  \<open>Inr\<close> of the value or \<open>Inl\<close> of an \<open>error\<close>, and a panic is an error value of its own
  that no function of the program builds: it comes only from a checked index or slice, or from
  a method call on a nil interface.  \<open>error\<close> has one constructor for each \<open>errors.New\<close> and
  each \<open>fmt.Errorf\<close> of the program, carrying what the message formats; an error of the
  transport, the CBOR library or the operating system is its text.

  An operation that talks to the device is an \<open>io\<close>: it passes the state of the world
  explicitly, and its result is \<open>None\<close> when it never returns.
\<close>

section \<open>Errors\<close>

type_synonym ext_error = string

datatype go_panic = IndexOutOfRange | SliceBounds | NilDereference | BufferTooSmall | PanicValue string

text \<open>The sentinel errors of \<open>fido.go\<close>, which callers compare with \<open>==\<close>.\<close>

datatype wire_error =
  ErrNoKey | ErrTooLong | ErrShortPacket | ErrWrongChannel | ErrOutOfOrder | ErrTruncated

text \<open>\<open>key.go\<close>\<close>

datatype key_error =
    CannotMakeNonce ext_error
  | AnotherInit bytes bytes
  | CannotWink string
  | CannotSend string ext_error
  | DidNotAnswer string ext_error
  | RefusedRequest string byte
  | AnsweredCommand string byte byte
  | CloseFailed ext_error

text \<open>\<open>ctap2.go\<close>\<close>

datatype ctap2_error =
    NoCTAP2 string
  | NothingAtAll string
  | StatusRefusal string byte
  | NoBytes
  | InfoNotMap ext_error
  | InfoField u64 ext_error
  | AaguidLength nat
  | NoVersion

text \<open>\<open>credential.go\<close>\<close>

datatype request_error =
    NoClientDataHash | NoRelyingParty | NoUserHandle
  | ReplyNotMap ext_error
  | NoAuthenticatorData | NoCredentialInIt | NoSignature
  | ReplyCredential ext_error | ReplyUser ext_error | ReplyCount ext_error

text \<open>The helpers \<open>cborCall\<close> and \<open>field\<close>, which \<open>clientpin.go\<close> uses too\<close>

datatype exchange_error =
    CannotEncode ext_error
  | ReplyLacks string
  | ReplyField string ext_error

text \<open>\<open>authdata.go\<close>\<close>

datatype authdata_error =
    HeaderTooShort nat
  | AttestedTooShort nat
  | CredentialIDTooLong nat nat
  | PublicKeyNotCBOR ext_error
  | ExtensionsNotCBOR ext_error
  | UnaccountedBytes nat

text \<open>\<open>cose.go\<close> and the two conversions of \<open>clientpin.go\<close>\<close>

datatype cose_error =
    NoCredentialKey
  | KeyNotMap ext_error
  | KeyLacks string
  | KeyField string ext_error
  | KeyKind int int int
  | NoCoordinate string
  | BadCoordinate string ext_error
  | CoordinateSizes nat nat
  | NotOnCurve
  | NotAPoint ext_error
  | NotUncompressed nat

text \<open>\<open>pinproto.go\<close>\<close>

datatype pin_error =
    DerivingHMACKey ext_error
  | DerivingAESKey ext_error
  | UnknownProtocol int
  | NotWholeBlocks nat
  | NotAnAESKey ext_error
  | NoInitVector ext_error
  | InitVectorTooShort nat
  | EmptyPIN
  | NoKeyToAgreeWith ext_error
  | WillNotAgree ext_error

text \<open>\<open>clientpin.go\<close>\<close>

datatype client_error =
    RetriesNotMap ext_error
  | PowerCycleState ext_error
  | AgreementNotMap ext_error
  | NoAgreementKey
  | EmptyPINGiven
  | TokenNotMap ext_error
  | TokenLength nat int

datatype request = Registration | AssertionRequest

text \<open>
  The last two wrap an error of the program itself; every other wrapped error is foreign.
\<close>

datatype error =
    Panic go_panic
  | Wire wire_error
  | Key key_error
  | Ctap2 ctap2_error
  | Request request request_error
  | Exchange exchange_error
  | AuthData authdata_error
  | CredentialKey cose_error
  | AgreementKey cose_error
  | Pin pin_error
  | Client client_error
  | InitMalformed error
  | TokenWillNotDecrypt error

type_synonym 'a outcome = "error + 'a"

fun panics :: "'a outcome \<Rightarrow> bool" where
  "panics (Inl (Panic _)) = True"
| "panics _ = False"

section \<open>Sequencing\<close>

text \<open>\<open>bindR m f\<close> is \<open>x, err := m; if err != nil \{ return err \}; f(x)\<close>.\<close>

definition bindR :: "'a outcome \<Rightarrow> ('a \<Rightarrow> 'b outcome) \<Rightarrow> 'b outcome" where
  "bindR m f = (case m of Inl e \<Rightarrow> Inl e | Inr x \<Rightarrow> f x)"

lemma bindR_simps [simp]:
  "bindR (Inl e) f = Inl e"
  "bindR (Inr x) f = f x"
  by (simp_all add: bindR_def)

lemma bindR_eq_Inr [go_bind]:
  "bindR m f = Inr y \<longleftrightarrow> (\<exists>x. m = Inr x \<and> f x = Inr y)"
  by (cases m) simp_all

lemma bindR_eq_Inl:
  "bindR m f = Inl e \<longleftrightarrow> m = Inl e \<or> (\<exists>x. m = Inr x \<and> f x = Inl e)"
  by (cases m) simp_all

lemma bindR_assoc: "bindR (bindR m f) g = bindR m (\<lambda>x. bindR (f x) g)"
  by (cases m) simp_all

lemma bindR_if: "bindR (if b then m else n) f = (if b then bindR m f else bindR n f)"
  by simp

lemma panics_simps [simp]:
  "panics (Inr x) = False"
  "panics (Inl e) \<longleftrightarrow> (\<exists>p. e = Panic p)"
  by (cases e; simp)+

lemma panics_bindR:
  "panics (bindR m f) \<longleftrightarrow> panics m \<or> (\<exists>x. m = Inr x \<and> panics (f x))"
  by (cases m) simp_all

text \<open>
  An error that is wrapped with \<open>%w\<close>: a foreign one, or one of the program's own, which a
  panic is not.
\<close>

definition wrapExt :: "(ext_error \<Rightarrow> error) \<Rightarrow> (ext_error + 'a) \<Rightarrow> 'a outcome" where
  "wrapExt c m = (case m of Inl e \<Rightarrow> Inl (c e) | Inr x \<Rightarrow> Inr x)"

fun wrapErr :: "(error \<Rightarrow> error) \<Rightarrow> 'a outcome \<Rightarrow> 'a outcome" where
  "wrapErr c (Inr x) = Inr x"
| "wrapErr c (Inl (Panic p)) = Inl (Panic p)"
| "wrapErr c (Inl e) = Inl (c e)"

lemma wrapExt_simps [simp]:
  "wrapExt c (Inl e) = Inl (c e)"
  "wrapExt c (Inr x) = Inr x"
  by (simp_all add: wrapExt_def)

lemma wrapExt_eq_Inr [go_bind]: "wrapExt c m = Inr x \<longleftrightarrow> m = Inr x"
  by (cases m) simp_all

lemma wrapErr_eq_Inr [go_bind]: "wrapErr c m = Inr x \<longleftrightarrow> m = Inr x"
  by (cases "(c, m)" rule: wrapErr.cases) simp_all

lemma wrapErr_Inl: "wrapErr c (Inl e) = (case e of Panic p \<Rightarrow> Inl (Panic p) | _ \<Rightarrow> Inl (c e))"
  by (cases e) simp_all

section \<open>Checked reads of a slice\<close>

text \<open>
  \<open>xs[i]\<close> and \<open>xs[i:j]\<close> panic out of range.  Go bounds the upper end of a slice expression by
  the capacity, which the model does not have; bounding it by the length is stricter, so that
  an expression that does not panic here does not panic there and reads the same elements.
\<close>

definition index :: "'a list \<Rightarrow> nat \<Rightarrow> 'a outcome" where
  "index xs i = (if i < length xs then Inr (xs ! i) else Inl (Panic IndexOutOfRange))"

definition slice :: "'a list \<Rightarrow> nat \<Rightarrow> nat \<Rightarrow> 'a list outcome" where
  "slice xs i j =
     (if i \<le> j \<and> j \<le> length xs then Inr (take (j - i) (drop i xs)) else Inl (Panic SliceBounds))"

definition Uint16 :: "bytes \<Rightarrow> u16 outcome" where
  "Uint16 bs = (if length bs < 2 then Inl (Panic IndexOutOfRange) else Inr (get16 bs))"

definition Uint32 :: "bytes \<Rightarrow> u32 outcome" where
  "Uint32 bs = (if length bs < 4 then Inl (Panic IndexOutOfRange) else Inr (get32 bs))"

lemma index_ok [simp]: "i < length xs \<Longrightarrow> index xs i = Inr (xs ! i)"
  by (simp add: index_def)

lemma slice_ok [simp]:
  "i \<le> j \<Longrightarrow> j \<le> length xs \<Longrightarrow> slice xs i j = Inr (take (j - i) (drop i xs))"
  by (simp add: slice_def)

lemma slice_from_ok [simp]: "i \<le> length xs \<Longrightarrow> slice xs i (length xs) = Inr (drop i xs)"
  by (simp add: slice_def)

lemma Uint16_ok [simp]: "2 \<le> length bs \<Longrightarrow> Uint16 bs = Inr (get16 bs)"
  by (simp add: Uint16_def)

lemma Uint32_ok [simp]: "4 \<le> length bs \<Longrightarrow> Uint32 bs = Inr (get32 bs)"
  by (simp add: Uint32_def)

text \<open>
  The same early return in an operation that carries a state \<open>s\<close>: the state is left as it is.
\<close>

definition readS :: "'a outcome \<Rightarrow> 's \<Rightarrow> ('a \<Rightarrow> 'b outcome \<times> 's) \<Rightarrow> 'b outcome \<times> 's" where
  "readS m s k = (case m of Inl e \<Rightarrow> (Inl e, s) | Inr x \<Rightarrow> k x)"

lemma readS_simps [simp]:
  "readS (Inl e) s k = (Inl e, s)"
  "readS (Inr x) s k = k x"
  by (simp_all add: readS_def)

section \<open>Operations on the world\<close>

type_synonym ('w, 'a) io = "'w \<Rightarrow> ('a outcome \<times> 'w) option"

definition retIO :: "'a \<Rightarrow> ('w, 'a) io" where
  "retIO x w = Some (Inr x, w)"

definition failIO :: "error \<Rightarrow> ('w, 'a) io" where
  "failIO e w = Some (Inl e, w)"

definition liftIO :: "'a outcome \<Rightarrow> ('w, 'a) io" where
  "liftIO r w = Some (r, w)"

definition bindIO :: "('w, 'a) io \<Rightarrow> ('a \<Rightarrow> ('w, 'b) io) \<Rightarrow> ('w, 'b) io" where
  "bindIO m f w = (case m w of None \<Rightarrow> None
     | Some (Inl e, w1) \<Rightarrow> Some (Inl e, w1)
     | Some (Inr x, w1) \<Rightarrow> f x w1)"

text \<open>A read of the world that leaves it alone, such as the device's name.\<close>

definition readIO :: "('w \<Rightarrow> 'a) \<Rightarrow> ('w, 'a) io" where
  "readIO f w = Some (Inr (f w), w)"

lemma io_simps [simp]:
  "retIO x w = Some (Inr x, w)"
  "failIO e w = Some (Inl e, w)"
  "liftIO r w = Some (r, w)"
  "readIO f w = Some (Inr (f w), w)"
  by (simp_all add: retIO_def failIO_def liftIO_def readIO_def)

lemma bindIO_ret [simp]: "bindIO (retIO x) f = f x"
  by (simp add: bindIO_def fun_eq_iff)

lemma bindIO_fail [simp]: "bindIO (failIO e) f = failIO e"
  by (simp add: bindIO_def fun_eq_iff)

lemma bindIO_lift_Inr [simp]: "bindIO (liftIO (Inr x)) f = f x"
  by (simp add: bindIO_def fun_eq_iff)

lemma bindIO_lift_Inl [simp]: "bindIO (liftIO (Inl e)) f = failIO e"
  by (simp add: bindIO_def fun_eq_iff)

lemma bindIO_read [simp]: "bindIO (readIO g) f w = f (g w) w"
  by (simp add: bindIO_def)

lemma bindIO_step [simp]:
  "m w = Some (Inr x, w1) \<Longrightarrow> bindIO m f w = f x w1"
  "m w = Some (Inl e, w1) \<Longrightarrow> bindIO m f w = Some (Inl e, w1)"
  "m w = None \<Longrightarrow> bindIO m f w = None"
  by (simp_all add: bindIO_def)

lemma bindIO_assoc: "bindIO (bindIO m f) g = bindIO m (\<lambda>x. bindIO (f x) g)"
  by (auto simp: bindIO_def fun_eq_iff split: option.splits sum.splits)

lemma bindIO_eq_Inr [go_bind]:
  "bindIO m f w = Some (Inr y, w2) \<longleftrightarrow>
     (\<exists>x w1. m w = Some (Inr x, w1) \<and> f x w1 = Some (Inr y, w2))"
  by (auto simp: bindIO_def split: option.splits sum.splits)

lemma bindIO_eq_Inl:
  "bindIO m f w = Some (Inl e, w2) \<longleftrightarrow>
     m w = Some (Inl e, w2) \<or> (\<exists>x w1. m w = Some (Inr x, w1) \<and> f x w1 = Some (Inl e, w2))"
  by (auto simp: bindIO_def split: option.splits sum.splits)

lemma bindIO_eq_None:
  "bindIO m f w = None \<longleftrightarrow> m w = None \<or> (\<exists>x w1. m w = Some (Inr x, w1) \<and> f x w1 = None)"
  by (auto simp: bindIO_def split: option.splits sum.splits)

lemmas io_eqs = bindIO_eq_Inr bindIO_eq_Inl bindIO_eq_None

end
