(* ===== verification/Cbor.thy ===== *)
theory Cbor
  imports Outcome
begin

text \<open>
  The CBOR library \<open>github.com/fxamacker/cbor\<close> is not part of the program, so what the program
  calls of it is a record of functions, an argument of every definition that uses it.  Its
  documented behaviour is stated once, as the predicate \<open>cbor_documented\<close>, which theorems that
  rely on it take as a hypothesis and which \<open>tiny_cbor\<close>, a concrete library, satisfies.
\<close>

section \<open>What is encoded\<close>

text \<open>
  The Go values handed to \<open>Marshal\<close>.  A map is a partial function, as its order is the
  encoder's business; the integer types differ only in their range.
\<close>

datatype gval =
    GInt int
  | GBytes bytes
  | GText string
  | GBool bool
  | GArray "gval list"
  | GTextMap "string \<Rightarrow> gval option"
  | GIntMap "int \<Rightarrow> gval option"

section \<open>The library\<close>

text \<open>
  \<open>cb_decode\<close> is \<open>NewDecoder(r).Decode(&raw)\<close> with what \<open>NumBytesRead\<close> says afterwards; every
  other decoder is \<open>Unmarshal\<close> into a variable of the type named.  A target is always a fresh
  zero value, so the result depends on the bytes alone.
\<close>

record cbor =
  cb_marshal :: "gval \<Rightarrow> ext_error + bytes"
  cb_map_u64 :: "bytes \<Rightarrow> ext_error + (u64 \<Rightarrow> bytes option)"
  cb_map_i64 :: "bytes \<Rightarrow> ext_error + (int \<Rightarrow> bytes option)"
  cb_map_text :: "bytes \<Rightarrow> ext_error + (string \<Rightarrow> bytes option)"
  cb_raws :: "bytes \<Rightarrow> ext_error + bytes list"
  cb_bytes :: "bytes \<Rightarrow> ext_error + bytes"
  cb_text :: "bytes \<Rightarrow> ext_error + string"
  cb_texts :: "bytes \<Rightarrow> ext_error + string list"
  cb_options :: "bytes \<Rightarrow> ext_error + (string \<times> bool) list"
  cb_uint :: "bytes \<Rightarrow> ext_error + u64"
  cb_uints :: "bytes \<Rightarrow> ext_error + u64 list"
  cb_int :: "bytes \<Rightarrow> ext_error + int"
  cb_bool :: "bytes \<Rightarrow> ext_error + bool"
  cb_descriptor :: "bytes \<Rightarrow> ext_error + (string \<times> bytes)"
  cb_user :: "bytes \<Rightarrow> ext_error + bytes"
  cb_raw :: "bytes \<Rightarrow> ext_error + bytes"
  cb_decode :: "bytes \<Rightarrow> ext_error + (bytes \<times> nat)"

text \<open>
  What the program relies on in the library's documentation: a decoder reads the first item of
  its input and \<open>NumBytesRead\<close> counts the bytes of that item, at least one and all of them in the
  input; and what it makes of the item does not depend on what follows it.  Nothing is assumed
  about the values themselves.
\<close>

definition cbor_documented :: "cbor \<Rightarrow> bool" where
  "cbor_documented C \<longleftrightarrow>
     (\<forall>b raw n. cb_decode C b = Inr (raw, n) \<longrightarrow> 0 < n \<and> n \<le> length b \<and>
        (\<forall>rest. cb_decode C (take n b @ rest) = Inr (raw, n)))"

lemma cbor_decode_length:
  "cbor_documented C \<Longrightarrow> cb_decode C b = Inr (raw, n) \<Longrightarrow> 0 < n \<and> n \<le> length b"
  unfolding cbor_documented_def by blast

lemma cbor_decode_prefix:
  "cbor_documented C \<Longrightarrow> cb_decode C b = Inr (raw, n) \<Longrightarrow> cb_decode C (take n b @ rest) = Inr (raw, n)"
  unfolding cbor_documented_def by blast

lemma cbor_decode_item:
  "cbor_documented C \<Longrightarrow> cb_decode C item = Inr (raw, length item) \<Longrightarrow>
     cb_decode C (item @ rest) = Inr (raw, length item)"
  using cbor_decode_prefix [of C item raw "length item" rest] by simp

section \<open>Two libraries that speak to each other\<close>

text \<open>
  What a decoder makes of what an encoder wrote, as far as the record has decoders for it.  An
  integer comes back when the Go type holds it, a string when it is valid UTF-8 -- the model says
  so of ASCII -- and an array or a map comes back with members that read in their turn, the map
  under the keys it had.  A member is delivered as its own bytes.
\<close>

definition int64 :: "int \<Rightarrow> bool" where
  "int64 i \<longleftrightarrow> - (2 ^ 63) \<le> i \<and> i < 2 ^ 63"

definition ascii :: "string \<Rightarrow> bool" where
  "ascii s \<longleftrightarrow> (\<forall>c \<in> set s. of_char c < (128 :: nat))"

definition carries :: "cbor \<Rightarrow> ('k \<Rightarrow> (bytes \<Rightarrow> bool) option) \<Rightarrow> ('k \<Rightarrow> bytes option) \<Rightarrow> bool" where
  "carries C m raw \<longleftrightarrow> (\<forall>k. case m k of
       None \<Rightarrow> raw k = None
     | Some p \<Rightarrow> (\<exists>r. raw k = Some r \<and> p r \<and> cb_raw C r = Inr r))"

text \<open>
  Arrays of strings and of numbers, and maps read into the structs of the program: a struct takes
  the members it has a field for and passes over the others.
\<close>

definition reads_lists :: "cbor \<Rightarrow> gval list \<Rightarrow> bytes \<Rightarrow> bool" where
  "reads_lists C vs b \<longleftrightarrow>
     (\<forall>ss. vs = map GText ss \<and> (\<forall>s \<in> set ss. ascii s) \<longrightarrow> cb_texts C b = Inr ss) \<and>
     (\<forall>ns. vs = map (\<lambda>n. GInt (uint n)) ns \<longrightarrow> cb_uints C b = Inr ns)"

definition reads_structs :: "cbor \<Rightarrow> (string \<Rightarrow> gval option) \<Rightarrow> bytes \<Rightarrow> bool" where
  "reads_structs C m b \<longleftrightarrow>
     (\<forall>ty cid. m ''type'' = Some (GText ty) \<and> ascii ty \<and> m ''id'' = Some (GBytes cid) \<and>
        dom m \<subseteq> {''type'', ''id'', ''transports''} \<longrightarrow> cb_descriptor C b = Inr (ty, cid)) \<and>
     (\<forall>uid. m ''id'' = Some (GBytes uid) \<and> dom m \<subseteq> {''id'', ''name'', ''displayName''} \<longrightarrow>
        cb_user C b = Inr uid) \<and>
     (\<forall>opts. m = (\<lambda>k. map_option GBool (map_of opts k)) \<longrightarrow>
        (\<exists>got. cb_options C b = Inr got \<and> distinct (map fst got) \<and> map_of got = map_of opts))"

primrec reads :: "cbor \<Rightarrow> gval \<Rightarrow> bytes \<Rightarrow> bool" where
  "reads C (GInt i) = (\<lambda>b. (int64 i \<longrightarrow> cb_int C b = Inr i) \<and>
     (0 \<le> i \<and> i < 2 ^ 64 \<longrightarrow> cb_uint C b = Inr (of_int i)))"
| "reads C (GBytes x) = (\<lambda>b. cb_bytes C b = Inr x)"
| "reads C (GText s) = (\<lambda>b. ascii s \<longrightarrow> cb_text C b = Inr s)"
| "reads C (GBool v) = (\<lambda>b. cb_bool C b = Inr v)"
| "reads C (GArray vs) = (\<lambda>b. reads_lists C vs b \<and> (\<exists>raws. cb_raws C b = Inr raws \<and>
     list_all2 (\<lambda>p r. p r \<and> cb_raw C r = Inr r) (map (reads C) vs) raws))"
| "reads C (GTextMap m) = (\<lambda>b. let members = (\<lambda>k. map_option (reads C) (m k)) in
     Ball (dom m) ascii \<longrightarrow> reads_structs C m b \<and>
       (\<exists>raw. cb_map_text C b = Inr raw \<and> carries C members raw))"
| "reads C (GIntMap m) = (\<lambda>b. let members = (\<lambda>k. map_option (reads C) (m k)) in
     (Ball (dom members) int64 \<longrightarrow> (\<exists>raw. cb_map_i64 C b = Inr raw \<and> carries C members raw)) \<and>
     ((\<forall>k \<in> dom members. 0 \<le> k \<and> k < 2 ^ 64) \<longrightarrow>
        (\<exists>raw. cb_map_u64 C b = Inr raw \<and> carries C (\<lambda>k. members (uint k)) raw)))"

text \<open>How deep a value nests; the library's decoder stops at 32 levels.\<close>

primrec nests :: "gval \<Rightarrow> nat \<Rightarrow> bool" where
  "nests (GInt i) = (\<lambda>n. True)"
| "nests (GBytes x) = (\<lambda>n. True)"
| "nests (GText s) = (\<lambda>n. True)"
| "nests (GBool v) = (\<lambda>n. True)"
| "nests (GArray vs) = (\<lambda>n. 0 < n \<and> (\<forall>p \<in> set (map nests vs). p (n - 1)))"
| "nests (GTextMap m) = (\<lambda>n. 0 < n \<and> (\<forall>k. pred_option (\<lambda>p. p (n - 1)) (map_option nests (m k))))"
| "nests (GIntMap m) = (\<lambda>n. 0 < n \<and> (\<forall>k. pred_option (\<lambda>p. p (n - 1)) (map_option nests (m k))))"

text \<open>
  \<open>interoperate P A\<close>: what the library \<open>P\<close> marshals, the library \<open>A\<close> reads, and its stream decoder
  takes as one item, within the limits a decoder has on depth and on the number of members, which
  is less than the number of bytes.
  \<open>compact L\<close>: marshalling does not fail on integers, strings, booleans, arrays and finite maps of
  them, and takes at least one byte, and at most nine for the head of an item beside its content.
\<close>

definition interoperate :: "cbor \<Rightarrow> cbor \<Rightarrow> bool" where
  "interoperate P A \<longleftrightarrow>
     (\<forall>v b. cb_marshal P v = Inr b \<and> nests v 32 \<and> length b < 2 ^ 16 \<longrightarrow>
        reads A v b \<and> cb_decode A b = Inr (b, length b))"

primrec encodable :: "gval \<Rightarrow> bool" where
  "encodable (GInt i) = (- (2 ^ 63) \<le> i \<and> i < 2 ^ 64)"
| "encodable (GBytes x) = (length x < 2 ^ 64)"
| "encodable (GText s) = (length s < 2 ^ 64 \<and> ascii s)"
| "encodable (GBool v) = True"
| "encodable (GArray vs) = (length vs < 2 ^ 64 \<and> (\<forall>ok \<in> set (map encodable vs). ok))"
| "encodable (GTextMap m) = (finite (dom m) \<and> card (dom m) < 2 ^ 64 \<and>
     (\<forall>k \<in> dom m. length k < 2 ^ 64 \<and> ascii k) \<and>
     (\<forall>k. pred_option id (map_option encodable (m k))))"
| "encodable (GIntMap m) = (finite (dom m) \<and> card (dom m) < 2 ^ 64 \<and>
     (\<forall>k \<in> dom m. - (2 ^ 63) \<le> k \<and> k < 2 ^ 64) \<and>
     (\<forall>k. pred_option id (map_option encodable (m k))))"

primrec weight :: "gval \<Rightarrow> nat" where
  "weight (GInt i) = 9"
| "weight (GBytes x) = 9 + length x"
| "weight (GText s) = 9 + length s"
| "weight (GBool v) = 1"
| "weight (GArray vs) = 9 + sum_list (map weight vs)"
| "weight (GTextMap m) =
     (let w = (\<lambda>k. map_option weight (m k)) in 9 + (\<Sum>k \<in> dom w. 9 + length k + the (w k)))"
| "weight (GIntMap m) = (let w = (\<lambda>k. map_option weight (m k)) in 9 + (\<Sum>k \<in> dom w. 9 + the (w k)))"

definition compact :: "cbor \<Rightarrow> bool" where
  "compact L \<longleftrightarrow> (\<forall>v. encodable v \<longrightarrow> (\<exists>b. cb_marshal L v = Inr b \<and> b \<noteq> [] \<and> length b \<le> weight v))"

lemma pred_option_dom: "(\<forall>k. pred_option P (map_option f (m k))) \<longleftrightarrow> (\<forall>k \<in> dom m. P (f (the (m k))))"
proof -
  have "pred_option P (map_option f (m k)) \<longleftrightarrow> (k \<in> dom m \<longrightarrow> P (f (the (m k))))" for k
    by (cases "m k") auto
  then show ?thesis by auto
qed

lemma nests_map:
  "nests (GIntMap m) n \<longleftrightarrow> 0 < n \<and> (\<forall>k \<in> dom m. nests (the (m k)) (n - 1))"
  "nests (GTextMap t) n \<longleftrightarrow> 0 < n \<and> (\<forall>k \<in> dom t. nests (the (t k)) (n - 1))"
  by (simp_all only: nests.simps pred_option_dom)

lemma encodable_map:
  "encodable (GIntMap m) \<longleftrightarrow> finite (dom m) \<and> card (dom m) < 2 ^ 64 \<and>
     (\<forall>k \<in> dom m. - (2 ^ 63) \<le> k \<and> k < 2 ^ 64 \<and> encodable (the (m k)))"
  "encodable (GTextMap t) \<longleftrightarrow> finite (dom t) \<and> card (dom t) < 2 ^ 64 \<and>
     (\<forall>k \<in> dom t. length k < 2 ^ 64 \<and> ascii k \<and> encodable (the (t k)))"
  unfolding encodable.simps pred_option_dom id_apply by blast+

lemma weight_map:
  "weight (GIntMap m) = 9 + (\<Sum>k \<in> dom m. 9 + weight (the (m k)))"
  "weight (GTextMap t) = 9 + (\<Sum>k \<in> dom t. 9 + length k + weight (the (t k)))"
  by (auto simp: Let_def dom_def intro!: sum.cong)

lemmas measure_map = encodable_map weight_map nests_map

declare nests.simps(6,7) [simp del] encodable.simps(6,7) [simp del] weight.simps(6,7) [simp del]

section \<open>A library to try things on\<close>

text \<open>
  An encoding small enough to evaluate by hand: an item is a length byte and that many bytes
  of content.  Maps and values are read off given tables.
\<close>

definition tiny_item :: "bytes \<Rightarrow> ext_error + (bytes \<times> nat)" where
  "tiny_item b = (case b of [] \<Rightarrow> Inl ''EOF''
     | n # rest \<Rightarrow> if length rest < unat n then Inl ''unexpected EOF''
                   else Inr (take (Suc (unat n)) b, Suc (unat n)))"

definition tiny_raw :: "bytes \<Rightarrow> ext_error + bytes" where
  "tiny_raw b = (case tiny_item b of Inl e \<Rightarrow> Inl e
     | Inr (raw, n) \<Rightarrow> if n = length b then Inr b else Inl ''extraneous data'')"

definition tiny_cbor :: cbor where
  "tiny_cbor =
     \<lparr>cb_marshal = (\<lambda>v. Inr [0]),
      cb_map_u64 = (\<lambda>b. Inr (\<lambda>k. None)),
      cb_map_i64 = (\<lambda>b. Inr (\<lambda>k. None)),
      cb_map_text = (\<lambda>b. Inr (\<lambda>k. None)),
      cb_raws = (\<lambda>b. Inr []),
      cb_bytes = (\<lambda>b. Inr (drop 1 b)),
      cb_text = (\<lambda>b. Inr (map (\<lambda>x. char_of (unat x)) (drop 1 b))),
      cb_texts = (\<lambda>b. Inr [map (\<lambda>x. char_of (unat x)) (drop 1 b)]),
      cb_options = (\<lambda>b. Inr []),
      cb_uint = (\<lambda>b. Inr (of_nat (length b))),
      cb_uints = (\<lambda>b. Inr []),
      cb_int = (\<lambda>b. Inr (case b of [n, x] \<Rightarrow> uint x | _ \<Rightarrow> 0)),
      cb_bool = (\<lambda>b. Inr (b = [1, 1])),
      cb_descriptor = (\<lambda>b. Inr (''public-key'', drop 1 b)),
      cb_user = (\<lambda>b. Inr (drop 1 b)),
      cb_raw = tiny_raw,
      cb_decode = tiny_item\<rparr>"

lemma tiny_cbor_documented: "cbor_documented tiny_cbor"
  unfolding cbor_documented_def
  by (auto simp: tiny_cbor_def tiny_raw_def tiny_item_def min_def
      split: list.splits if_splits sum.splits)

end
