(* ===== verification/GoText.thy ===== *)
theory GoText
  imports Prelude "HOL-Library.Multiset" "HOL-Library.Char_ord" "HOL-Library.List_Lexorder"
begin

text \<open>
  What the program uses of \<open>fmt\<close>, \<open>strings\<close> and \<open>sort\<close>: numbers in decimal, in hexadecimal
  with a minimal number of digits and a \<open>0x\<close> in front, bytes as pairs of hexadecimal digits,
  \<open>strings.Join\<close>, and \<open>sort.Strings\<close>, which is the library's \<open>sort\<close> under the bytewise
  lexicographic order.
\<close>

section \<open>Numbers\<close>

definition digit :: "nat \<Rightarrow> char" where
  "digit d = ''0123456789abcdef'' ! d"

text \<open>The digits of \<open>n\<close> in base \<open>b\<close>, most significant first, at least one.\<close>

fun digits :: "nat \<Rightarrow> nat \<Rightarrow> string" where
  "digits b n = (if n < b \<or> b < 2 then [digit n] else digits b (n div b) @ [digit (n mod b)])"

declare digits.simps [simp del]

text \<open>\<open>%d\<close>\<close>

definition fmt_d :: "int \<Rightarrow> string" where
  "fmt_d i = (if i < 0 then ''-'' else []) @ digits 10 (nat \<bar>i\<bar>)"

text \<open>\<open>%#0<width>x\<close>: the width counts the digits, and the prefix comes on top of it.\<close>

definition fmt_hex :: "nat \<Rightarrow> nat \<Rightarrow> string" where
  "fmt_hex width n = ''0x'' @ replicate (width - length (digits 16 n)) (CHR ''0'') @ digits 16 n"

text \<open>\<open>%x\<close> of a slice of bytes\<close>

definition hex_byte :: "byte \<Rightarrow> string" where
  "hex_byte b = [digit (unat b div 16), digit (unat b mod 16)]"

definition fmt_x :: "bytes \<Rightarrow> string" where
  "fmt_x bs = concat (map hex_byte bs)"

section \<open>Strings\<close>

fun Join :: "string list \<Rightarrow> string \<Rightarrow> string" where
  "Join [] sep = []"
| "Join [x] sep = x"
| "Join (x # xs) sep = x @ sep @ Join xs sep"

definition sort_Strings :: "string list \<Rightarrow> string list" where
  "sort_Strings xs = sort xs"

section \<open>Lemmas\<close>

lemma digit_inject: "i < 16 \<Longrightarrow> j < 16 \<Longrightarrow> digit i = digit j \<longleftrightarrow> i = j"
  unfolding digit_def by (intro nth_eq_iff_index_eq) auto

lemma hex_byte_inject: "hex_byte a = hex_byte b \<longleftrightarrow> a = b"
proof
  have less: "unat x div 16 < 16" for x :: byte
    using unsigned_less [of x, where ?'a = nat] by (simp add: less_mult_imp_div_less)
  assume "hex_byte a = hex_byte b"
  then have "unat a div 16 = unat b div 16" and "unat a mod 16 = unat b mod 16"
    by (simp_all add: hex_byte_def digit_inject less)
  then have "unat a = unat b" by (metis div_mult_mod_eq)
  then show "a = b" by (simp add: word_unat_eq_iff)
qed simp

lemma fmt_x_inject: "fmt_x xs = fmt_x ys \<longleftrightarrow> xs = ys"
proof
  show "fmt_x xs = fmt_x ys \<Longrightarrow> xs = ys"
  proof (induction xs arbitrary: ys)
    case Nil
    then show ?case by (cases ys) (simp_all add: fmt_x_def hex_byte_def)
  next
    case (Cons x xs)
    then obtain y ys' where ys: "ys = y # ys'"
      by (cases ys) (simp_all add: fmt_x_def hex_byte_def)
    with Cons.prems have "hex_byte x = hex_byte y" and "fmt_x xs = fmt_x ys'"
      by (simp_all add: fmt_x_def hex_byte_def)
    with Cons.IH ys show ?case by (simp add: hex_byte_inject)
  qed
qed simp

lemma length_fmt_x: "length (fmt_x bs) = 2 * length bs"
  by (induction bs) (simp_all add: fmt_x_def hex_byte_def)

lemma Join_eq_Nil: "Join xs sep = [] \<longleftrightarrow> xs = [] \<or> xs = [[]] \<or> (sep = [] \<and> (\<forall>x \<in> set xs. x = []))"
  by (induction xs sep rule: Join.induct) auto

lemma sort_Strings_mset:
  "mset xs = mset ys \<Longrightarrow> sort_Strings xs = sort_Strings ys"
  unfolding sort_Strings_def by (metis properties_for_sort sorted_sort mset_sort)

text \<open>A byte takes at most two hexadecimal digits, so two are always written.\<close>

lemma fmt_hex_byte: "fmt_hex 2 (unat (b :: byte)) = ''0x'' @ hex_byte b"
proof -
  have less: "unat b div 16 < 16"
    using unsigned_less [of b, where ?'a = nat] by (simp add: less_mult_imp_div_less)
  show ?thesis
  proof (cases "unat b < 16")
    case True
    then have "digits 16 (unat b) = [digit (unat b)]"
      by (simp add: digits.simps)
    with True show ?thesis by (simp add: fmt_hex_def hex_byte_def digit_def)
  next
    case False
    then have "digits 16 (unat b) = [digit (unat b div 16), digit (unat b mod 16)]"
      using less by (simp add: digits.simps [of 16 "unat b"] digits.simps [of 16 "unat b div 16"])
    then show ?thesis by (simp add: fmt_hex_def hex_byte_def)
  qed
qed

lemma hex_digit_chars: "d < 16 \<Longrightarrow> digit d \<in> set ''0123456789abcdef''"
  unfolding digit_def by (rule nth_mem) simp

lemma last_hex_byte: "last (hex_byte b) \<in> set ''0123456789abcdef''"
  using hex_digit_chars [of "unat b mod 16"] by (simp add: hex_byte_def)

end
