(* ===== verification/Authdata.thy ===== *)
theory Authdata
  imports Cbor GoText
begin

text \<open>
  \<open>authdata.go\<close>: the flag byte, and \<open>ParseAuthData\<close>, which reads the bytes an authenticator
  signs over.  The specification is the layout, \<open>auth_data_layout\<close>; the parser accepts exactly the
  byte strings with that layout, and every byte of its input is in the result.
\<close>

section \<open>Flags\<close>

type_synonym Flags = byte

definition FlagUP :: Flags where "FlagUP = push_bit 0 1"
definition FlagUV :: Flags where "FlagUV = push_bit 2 1"
definition FlagBE :: Flags where "FlagBE = push_bit 3 1"
definition FlagBS :: Flags where "FlagBS = push_bit 4 1"
definition FlagAT :: Flags where "FlagAT = push_bit 6 1"
definition FlagED :: Flags where "FlagED = push_bit 7 1"

lemmas flag_defs = FlagUP_def FlagUV_def FlagBE_def FlagBS_def FlagAT_def FlagED_def

definition Flags_Has :: "Flags \<Rightarrow> Flags \<Rightarrow> bool" where
  "Flags_Has f want \<longleftrightarrow> f AND want = want"

interpretation flags: flag_set Flags_Has
  by unfold_locales (simp add: Flags_Has_def and_eq_iff_bits)

definition flag_names :: "(Flags \<times> string) list" where
  "flag_names =
     [(FlagUP, ''present''), (FlagUV, ''verified''), (FlagBE, ''backup-eligible''),
      (FlagBS, ''backed-up''), (FlagAT, ''attested''), (FlagED, ''extensions'')]"

definition Flags_String :: "Flags \<Rightarrow> string" where
  "Flags_String f =
     (let on = map snd (filter (\<lambda>(b, name). Flags_Has f b) flag_names)
      in if length on = 0 then ''none ('' @ fmt_hex 2 (unat f) @ '')'' else Join on '', '')"

section \<open>Authenticator data\<close>

record auth_data =
  ad_RPIDHash :: bytes
  ad_Flags :: Flags
  ad_SignCount :: u32
  ad_AAGUID :: bytes
  ad_CredentialID :: bytes
  ad_COSEKey :: bytes
  ad_Extensions :: bytes

text \<open>\<open>RPIDHash\<close> and \<open>AAGUID\<close> are arrays, so their zero value is a number of zeroes.\<close>

definition zero_auth_data :: auth_data where
  "zero_auth_data =
     \<lparr>ad_RPIDHash = make_bytes 32, ad_Flags = 0, ad_SignCount = 0, ad_AAGUID = make_bytes 16,
      ad_CredentialID = [], ad_COSEKey = [], ad_Extensions = []\<rparr>"

text \<open>The ellipsis of the format strings is three bytes of UTF-8.\<close>

definition ellipsis :: string where
  "ellipsis = [CHR 0xE2, CHR 0x80, CHR 0xA6]"

definition AuthData_String :: "auth_data \<Rightarrow> string" where
  "AuthData_String a =
     (let s = ''rp '' @ fmt_x (take 4 (ad_RPIDHash a)) @ ellipsis @ '', '' @ Flags_String (ad_Flags a) @
          '', count '' @ fmt_d (uint (ad_SignCount a))
      in if 0 < length (ad_CredentialID a)
         then s @ '', credential '' @
           fmt_x (take (min 4 (length (ad_CredentialID a))) (ad_CredentialID a)) @ ellipsis @ '' ('' @
           fmt_d (int (length (ad_CredentialID a))) @ '' bytes)''
         else s)"

definition authDataHeader :: nat where "authDataHeader = 32 + 1 + 4"
definition aaguidLen :: nat where "aaguidLen = 16"
definition credentialIDSize :: nat where "credentialIDSize = 2"

lemmas auth_size_defs = authDataHeader_def aaguidLen_def credentialIDSize_def

section \<open>The parser\<close>

text \<open>The reader \<open>bytesReader\<close> makes (\<open>readerhelp.go\<close>) is what it has yet to deliver.\<close>

definition bytesReader :: "bytes \<Rightarrow> bytes" where
  "bytesReader b = b"

text \<open>
  The attested credential data at the front of \<open>rest\<close>: the fields it sets and what remains.
\<close>

definition parse_attested :: "cbor \<Rightarrow> auth_data \<Rightarrow> bytes \<Rightarrow> (auth_data \<times> bytes) outcome" where
  "parse_attested C a rest =
     (if length rest < aaguidLen + credentialIDSize
      then Inl (AuthData (AttestedTooShort (length rest)))
      else bindR (slice rest 0 aaguidLen) (\<lambda>aaguid.
        let a = a\<lparr>ad_AAGUID := go_copy (ad_AAGUID a) aaguid\<rparr> in
        bindR (bindR (slice rest aaguidLen (aaguidLen + credentialIDSize)) Uint16) (\<lambda>size.
        let n = unat size in
        bindR (slice rest (aaguidLen + credentialIDSize) (length rest)) (\<lambda>rest.
        if length rest < n then Inl (AuthData (CredentialIDTooLong n (length rest)))
        else bindR (slice rest 0 n) (\<lambda>cid.
        let a = a\<lparr>ad_CredentialID := cid\<rparr> in
        bindR (slice rest n (length rest)) (\<lambda>rest.
        bindR (wrapExt (\<lambda>e. AuthData (PublicKeyNotCBOR e)) (cb_decode C (bytesReader rest))) (\<lambda>(key, numBytesRead).
        let a = a\<lparr>ad_COSEKey := key\<rparr> in
        bindR (slice rest numBytesRead (length rest)) (\<lambda>rest.
        Inr (a, rest)))))))))"

definition parse_extensions :: "cbor \<Rightarrow> auth_data \<Rightarrow> bytes \<Rightarrow> auth_data outcome" where
  "parse_extensions C a rest =
     (if Flags_Has (ad_Flags a) FlagED
      then bindR (wrapExt (\<lambda>e. AuthData (ExtensionsNotCBOR e)) (cb_raw C rest)) (\<lambda>ext.
        Inr (a\<lparr>ad_Extensions := ext\<rparr>))
      else if length rest \<noteq> 0 then Inl (AuthData (UnaccountedBytes (length rest)))
      else Inr a)"

definition ParseAuthData :: "cbor \<Rightarrow> bytes \<Rightarrow> auth_data outcome" where
  "ParseAuthData C b =
     (if length b < authDataHeader then Inl (AuthData (HeaderTooShort (length b)))
      else let a = zero_auth_data in
        bindR (slice b 0 32) (\<lambda>hash.
        let a = a\<lparr>ad_RPIDHash := go_copy (ad_RPIDHash a) hash\<rparr> in
        bindR (index b 32) (\<lambda>flags.
        let a = a\<lparr>ad_Flags := flags\<rparr> in
        bindR (bindR (slice b 33 37) Uint32) (\<lambda>count.
        let a = a\<lparr>ad_SignCount := count\<rparr> in
        bindR (slice b authDataHeader (length b)) (\<lambda>rest.
        bindR (if Flags_Has (ad_Flags a) FlagAT then parse_attested C a rest else Inr (a, rest))
          (\<lambda>(a, rest). parse_extensions C a rest))))))"

section \<open>The layout\<close>

text \<open>
  What the specification says the bytes are, given the parsed fields, the encoding \<open>item\<close> of the
  public key and the bytes \<open>ext\<close> of the extensions.
\<close>

definition auth_data_layout :: "auth_data \<Rightarrow> bytes \<Rightarrow> bytes \<Rightarrow> bytes" where
  "auth_data_layout a item ext =
     ad_RPIDHash a @ [ad_Flags a] @ PutUint32 (ad_SignCount a) @
     (if bit (ad_Flags a) 6
      then ad_AAGUID a @ PutUint16 (of_nat (length (ad_CredentialID a))) @ ad_CredentialID a @ item
      else []) @
     (if bit (ad_Flags a) 7 then ext else [])"

definition attested_ok :: "cbor \<Rightarrow> auth_data \<Rightarrow> bytes \<Rightarrow> bool" where
  "attested_ok C a item \<longleftrightarrow>
     (if bit (ad_Flags a) 6
      then length (ad_AAGUID a) = 16 \<and> length (ad_CredentialID a) < 2 ^ 16 \<and>
        cb_decode C item = Inr (ad_COSEKey a, length item)
      else ad_AAGUID a = make_bytes 16 \<and> ad_CredentialID a = [] \<and> ad_COSEKey a = [])"

definition extensions_ok :: "cbor \<Rightarrow> auth_data \<Rightarrow> bytes \<Rightarrow> bool" where
  "extensions_ok C a ext \<longleftrightarrow>
     (if bit (ad_Flags a) 7 then cb_raw C ext = Inr (ad_Extensions a) else ad_Extensions a = [])"

section \<open>Lemmas\<close>

lemma Flags_Has_bit:
  "Flags_Has f FlagUP \<longleftrightarrow> bit f 0" "Flags_Has f FlagUV \<longleftrightarrow> bit f 2" "Flags_Has f FlagBE \<longleftrightarrow> bit f 3"
  "Flags_Has f FlagBS \<longleftrightarrow> bit f 4" "Flags_Has f FlagAT \<longleftrightarrow> bit f 6" "Flags_Has f FlagED \<longleftrightarrow> bit f 7"
  unfolding flag_defs by (simp_all only: flags.has_bit)

text \<open>The three parts of the header, and what they read of the bytes.\<close>

definition header_data :: "bytes \<Rightarrow> auth_data" where
  "header_data b = zero_auth_data\<lparr>ad_RPIDHash := take 32 b, ad_Flags := b ! 32,
     ad_SignCount := get32 (take 4 (drop 33 b))\<rparr>"

lemma ParseAuthData_short:
  "length b < 37 \<Longrightarrow> ParseAuthData C b = Inl (AuthData (HeaderTooShort (length b)))"
  by (simp add: ParseAuthData_def auth_size_defs)

lemma ParseAuthData_eq:
  "37 \<le> length b \<Longrightarrow> ParseAuthData C b =
     bindR (if bit (b ! 32) 6 then parse_attested C (header_data b) (drop 37 b)
            else Inr (header_data b, drop 37 b))
       (\<lambda>(a, rest). parse_extensions C a rest)"
  by (simp add: ParseAuthData_def auth_size_defs header_data_def zero_auth_data_def Flags_Has_bit)

lemma header_data_simps [simp]:
  "ad_Flags (header_data b) = b ! 32" "ad_AAGUID (header_data b) = make_bytes 16"
  "ad_CredentialID (header_data b) = []" "ad_COSEKey (header_data b) = []"
  "ad_Extensions (header_data b) = []"
  by (simp_all add: header_data_def zero_auth_data_def)

lemma header_split:
  assumes "37 \<le> length b"
  shows "b = take 32 b @ [b ! 32] @ PutUint32 (get32 (take 4 (drop 33 b))) @ drop 37 b"
proof -
  have "drop 32 b = b ! 32 # drop 33 b" using assms by (simp add: drop_nth_Cons)
  moreover have "drop 33 b = PutUint32 (get32 (take 4 (drop 33 b))) @ drop 37 b"
    using be32.split_off [of "drop 33 b"] assms by simp
  ultimately show ?thesis by (metis append_take_drop_id append_Cons append_Nil)
qed

lemma parse_attested_short:
  "length rest < 18 \<Longrightarrow> parse_attested C a rest = Inl (AuthData (AttestedTooShort (length rest)))"
  by (simp add: parse_attested_def auth_size_defs)

lemma parse_attested_eq:
  assumes "18 \<le> length rest" and "length (ad_AAGUID a) = 16"
  shows "parse_attested C a rest =
    (let n = unat (get16 (take 2 (drop 16 rest))) in
     if length rest - 18 < n then Inl (AuthData (CredentialIDTooLong n (length rest - 18)))
     else bindR (wrapExt (\<lambda>e. AuthData (PublicKeyNotCBOR e)) (cb_decode C (drop (18 + n) rest))) (\<lambda>(key, m).
       bindR (slice (drop (18 + n) rest) m (length rest - (18 + n))) (\<lambda>rest'.
       Inr (a\<lparr>ad_AAGUID := take 16 rest, ad_CredentialID := take n (drop 18 rest), ad_COSEKey := key\<rparr>, rest'))))"
  using assms by (simp add: parse_attested_def bytesReader_def auth_size_defs Let_def split_def ac_simps)

lemma parse_attested_sound:
  assumes doc: "cbor_documented C" and len: "length (ad_AAGUID a) = 16"
    and ok: "parse_attested C a rest = Inr (a', rest')"
  obtains aaguid cid key item where
    "a' = a\<lparr>ad_AAGUID := aaguid, ad_CredentialID := cid, ad_COSEKey := key\<rparr>"
    "length aaguid = 16" "length cid < 2 ^ 16" "cb_decode C item = Inr (key, length item)"
    "rest = aaguid @ PutUint16 (of_nat (length cid)) @ cid @ item @ rest'"
proof -
  define size where "size = get16 (take 2 (drop 16 rest))"
  define n where "n = unat size"
  define tail where "tail = drop (18 + n) rest"
  have long: "18 \<le> length rest"
    using ok by (cases "length rest < 18") (simp_all add: parse_attested_short)
  have bound: "n \<le> length rest - 18"
    using ok by (auto simp: parse_attested_eq [OF long len] Let_def size_def n_def split: if_splits)
  obtain key m where dec: "cb_decode C tail = Inr (key, m)" and cut: "m \<le> length tail"
    and a': "a' = a\<lparr>ad_AAGUID := take 16 rest, ad_CredentialID := take n (drop 18 rest), ad_COSEKey := key\<rparr>"
    and rest': "rest' = drop m tail"
  proof -
    from ok bound obtain key m where "cb_decode C tail = Inr (key, m)"
      and step: "bindR (slice tail m (length tail)) (\<lambda>rest'. Inr (a\<lparr>ad_AAGUID := take 16 rest,
        ad_CredentialID := take n (drop 18 rest), ad_COSEKey := key\<rparr>, rest')) = Inr (a', rest')"
      by (auto simp: parse_attested_eq [OF long len] Let_def size_def n_def tail_def go_bind
          split: if_splits)
    moreover from this have "m \<le> length tail" using cbor_decode_length [OF doc] by blast
    ultimately show ?thesis using that by simp
  qed
  have "rest = take 16 rest @ PutUint16 size @ drop 18 rest"
    using be16.split_off [of "drop 16 rest"] long
    unfolding size_def by simp
  also have "drop 18 rest = take n (drop 18 rest) @ take m tail @ drop m tail"
    by (simp only: tail_def append_take_drop_id add.commute [of 18 n] drop_drop [of n 18, symmetric])
  finally have parts: "rest = take 16 rest @ PutUint16 (of_nat (length (take n (drop 18 rest)))) @
      take n (drop 18 rest) @ take m tail @ rest'"
    using bound by (simp add: rest' n_def)
  show ?thesis
  proof (rule that [OF a' _ _ _ parts])
    show "cb_decode C (take m tail) = Inr (key, length (take m tail))"
      using cbor_decode_prefix [OF doc dec, of "[]"] cut by simp
    show "length (take n (drop 18 rest)) < 2 ^ 16"
      using unsigned_less [of size, where ?'a = nat] by (simp add: n_def)
  qed (use long in simp)
qed

lemma parse_attested_complete:
  assumes doc: "cbor_documented C" and len: "length (ad_AAGUID a) = 16"
    and "length aaguid = 16" and "length cid < 2 ^ 16" and "cb_decode C item = Inr (key, length item)"
  shows "parse_attested C a (aaguid @ PutUint16 (of_nat (length cid)) @ cid @ item @ rest') =
    Inr (a\<lparr>ad_AAGUID := aaguid, ad_CredentialID := cid, ad_COSEKey := key\<rparr>, rest')"
proof -
  have "unat (of_nat (length cid) :: u16) = length cid"
    using assms(4) by (simp add: unat_of_nat take_bit_nat_eq_self)
  then show ?thesis
    using assms cbor_decode_item [OF doc assms(5), of rest']
    by (simp add: parse_attested_eq get16_Put Let_def)
qed

lemma parse_extensions_eq_Inr:
  "parse_extensions C a rest = Inr a' \<longleftrightarrow>
     (if bit (ad_Flags a) 7 then \<exists>ext. cb_raw C rest = Inr ext \<and> a' = a\<lparr>ad_Extensions := ext\<rparr>
      else rest = [] \<and> a' = a)"
  by (auto simp: parse_extensions_def Flags_Has_bit go_bind)

lemma header_data_layout:
  assumes "length h = 32"
  shows "header_data (h @ [f] @ PutUint32 c @ rest) =
    zero_auth_data\<lparr>ad_RPIDHash := h, ad_Flags := f, ad_SignCount := c\<rparr>"
  using assms by (simp add: header_data_def nth_append get32_Put)

lemma layout_sound:
  assumes doc: "cbor_documented C" and ok: "ParseAuthData C b = Inr a"
  obtains item ext where "b = auth_data_layout a item ext" "length (ad_RPIDHash a) = 32"
    "attested_ok C a item" "extensions_ok C a ext"
proof -
  have long: "37 \<le> length b"
    using ok by (cases "length b < 37") (simp_all add: ParseAuthData_short)
  then obtain a1 rest where
    first: "(if bit (b ! 32) 6 then parse_attested C (header_data b) (drop 37 b)
             else Inr (header_data b, drop 37 b)) = Inr (a1, rest)"
    and second: "parse_extensions C a1 rest = Inr a"
    using ok by (auto simp: ParseAuthData_eq bindR_eq_Inr)
  have split: "b = take 32 b @ [b ! 32] @ PutUint32 (get32 (take 4 (drop 33 b))) @ drop 37 b"
    by (rule header_split [OF long])
  have head: "ad_RPIDHash (header_data b) = take 32 b"
    "ad_SignCount (header_data b) = get32 (take 4 (drop 33 b))"
    by (simp_all add: header_data_def)
  show ?thesis
  proof (cases "bit (b ! 32) 6")
    case True
    with first have "parse_attested C (header_data b) (drop 37 b) = Inr (a1, rest)" by simp
    then obtain aaguid cid key item where
      a1: "a1 = header_data b\<lparr>ad_AAGUID := aaguid, ad_CredentialID := cid, ad_COSEKey := key\<rparr>"
      and "length aaguid = 16" "length cid < 2 ^ 16" "cb_decode C item = Inr (key, length item)"
      and tail: "drop 37 b = aaguid @ PutUint16 (of_nat (length cid)) @ cid @ item @ rest"
      using parse_attested_sound [OF doc, of "header_data b"] by (metis header_data_simps(2) length_replicate)
    moreover have "b = take 32 b @ [b ! 32] @ PutUint32 (get32 (take 4 (drop 33 b))) @
        aaguid @ PutUint16 (of_nat (length cid)) @ cid @ item @ rest"
      using split unfolding tail .
    ultimately show ?thesis
      using True second long
      by (intro that [of item "if bit (b ! 32) 7 then rest else []"])
         (auto simp: parse_extensions_eq_Inr auth_data_layout_def attested_ok_def extensions_ok_def
           head split: if_splits)
  next
    case False
    then show ?thesis
      using first second long split
      by (intro that [of "[]" "if bit (b ! 32) 7 then rest else []"])
         (auto simp: parse_extensions_eq_Inr auth_data_layout_def attested_ok_def extensions_ok_def
           head split: if_splits)
  qed
qed

lemma layout_complete:
  assumes doc: "cbor_documented C" and hash: "length (ad_RPIDHash a) = 32"
    and att: "attested_ok C a item" and ext: "extensions_ok C a ext"
  shows "ParseAuthData C (auth_data_layout a item ext) = Inr a"
proof -
  define tail where "tail = (if bit (ad_Flags a) 6
    then ad_AAGUID a @ PutUint16 (of_nat (length (ad_CredentialID a))) @ ad_CredentialID a @ item
    else []) @ (if bit (ad_Flags a) 7 then ext else [])"
  define h where "h = zero_auth_data\<lparr>ad_RPIDHash := ad_RPIDHash a, ad_Flags := ad_Flags a,
    ad_SignCount := ad_SignCount a\<rparr>"
  have b: "auth_data_layout a item ext = ad_RPIDHash a @ [ad_Flags a] @ PutUint32 (ad_SignCount a) @ tail"
    by (simp add: auth_data_layout_def tail_def)
  have "ParseAuthData C (auth_data_layout a item ext) =
     bindR (if bit (ad_Flags a) 6 then parse_attested C h tail else Inr (h, tail))
       (\<lambda>(a, rest). parse_extensions C a rest)"
    unfolding b using hash
    by (subst ParseAuthData_eq) (simp_all add: header_data_layout [unfolded append.simps] nth_append h_def)
  also have "(if bit (ad_Flags a) 6 then parse_attested C h tail else Inr (h, tail)) =
     Inr (a\<lparr>ad_Extensions := []\<rparr>, if bit (ad_Flags a) 7 then ext else [])"
  proof (cases "bit (ad_Flags a) 6")
    case True
    then show ?thesis
      using att parse_attested_complete [OF doc, of h "ad_AAGUID a" "ad_CredentialID a" item "ad_COSEKey a"]
      by (simp add: attested_ok_def tail_def h_def zero_auth_data_def)
  next
    case False
    then show ?thesis using att by (simp add: attested_ok_def tail_def h_def zero_auth_data_def)
  qed
  also have "bindR (Inr (a\<lparr>ad_Extensions := []\<rparr>, if bit (ad_Flags a) 7 then ext else []))
      (\<lambda>(a, rest). parse_extensions C a rest) = Inr a"
    using ext by (simp add: extensions_ok_def parse_extensions_eq_Inr)
  finally show ?thesis .
qed

text \<open>Why the parser says no: one of six reasons, and what the bytes then are.\<close>

definition id_size :: "bytes \<Rightarrow> nat" where
  "id_size b = unat (get16 (take 2 (drop 53 b)))"

fun auth_fault :: "cbor \<Rightarrow> bytes \<Rightarrow> authdata_error \<Rightarrow> bool" where
  "auth_fault C b (HeaderTooShort n) \<longleftrightarrow> n = length b \<and> n < 37"
| "auth_fault C b (AttestedTooShort n) \<longleftrightarrow> bit (b ! 32) 6 \<and> 37 + n = length b \<and> n < 18"
| "auth_fault C b (CredentialIDTooLong n m) \<longleftrightarrow>
     bit (b ! 32) 6 \<and> 55 + m = length b \<and> m < n \<and> n = id_size b"
| "auth_fault C b (PublicKeyNotCBOR msg) \<longleftrightarrow>
     bit (b ! 32) 6 \<and> cb_decode C (drop (55 + id_size b) b) = Inl msg"
| "auth_fault C b (ExtensionsNotCBOR msg) \<longleftrightarrow>
     bit (b ! 32) 7 \<and> (\<exists>n. 37 \<le> n \<and> n \<le> length b \<and> cb_raw C (drop n b) = Inl msg)"
| "auth_fault C b (UnaccountedBytes n) \<longleftrightarrow> \<not> bit (b ! 32) 7 \<and> 0 < n \<and> n \<le> length b - 37"

lemma parse_attested_fault:
  assumes doc: "cbor_documented C" and at: "bit (b ! 32) 6" and long: "37 \<le> length b"
    and bad: "parse_attested C (header_data b) (drop 37 b) = Inl e"
  shows "\<exists>why. e = AuthData why \<and> auth_fault C b why"
proof (cases "length b < 55")
  case True
  then show ?thesis
    using bad at long by (simp add: parse_attested_short) (intro exI conjI, rule sym, assumption, simp)
next
  case False
  define n where "n = id_size b"
  have eq: "parse_attested C (header_data b) (drop 37 b) =
    (if length b - 55 < n then Inl (AuthData (CredentialIDTooLong n (length b - 55)))
     else bindR (wrapExt (\<lambda>e. AuthData (PublicKeyNotCBOR e)) (cb_decode C (drop (55 + n) b))) (\<lambda>(key, m).
       bindR (slice (drop (55 + n) b) m (length b - (55 + n))) (\<lambda>rest'.
       Inr (header_data b\<lparr>ad_AAGUID := take 16 (drop 37 b), ad_CredentialID := take n (drop 55 b),
         ad_COSEKey := key\<rparr>, rest'))))"
    using False long by (simp add: parse_attested_eq n_def id_size_def Let_def ac_simps)
  show ?thesis
  proof (cases "length b - 55 < n")
    case True
    then have "e = AuthData (CredentialIDTooLong n (length b - 55))" using bad eq by simp
    moreover have "auth_fault C b (CredentialIDTooLong n (length b - 55))"
      using True False at by (simp add: n_def)
    ultimately show ?thesis by blast
  next
    case fits: False
    show ?thesis
    proof (cases "cb_decode C (drop (55 + n) b)")
      case (Inl msg)
      then have "e = AuthData (PublicKeyNotCBOR msg)" using bad eq fits by simp
      moreover have "auth_fault C b (PublicKeyNotCBOR msg)" using Inl at by (simp add: n_def)
      ultimately show ?thesis by blast
    next
      case (Inr p)
      then obtain key m where "cb_decode C (drop (55 + n) b) = Inr (key, m)" by (cases p) simp
      moreover from cbor_decode_length [OF doc this] have "m \<le> length b - (55 + n)" by simp
      ultimately show ?thesis using bad eq fits by simp
    qed
  qed
qed

lemma parse_extensions_fault:
  assumes "parse_extensions C a rest = Inl e" and "ad_Flags a = b ! 32"
    and "rest = drop n b" and "37 \<le> n" and "n \<le> length b"
  shows "\<exists>why. e = AuthData why \<and> auth_fault C b why"
proof (cases "bit (b ! 32) 7")
  case True
  then obtain msg where "cb_raw C rest = Inl msg" and "e = AuthData (ExtensionsNotCBOR msg)"
    using assms(1,2) by (cases "cb_raw C rest") (auto simp: parse_extensions_def Flags_Has_bit)
  then show ?thesis using True assms(3-) by auto
next
  case False
  then show ?thesis using assms
    by (auto simp: parse_extensions_def Flags_Has_bit split: if_splits)
qed

lemma ParseAuthData_fault:
  assumes doc: "cbor_documented C" and bad: "ParseAuthData C b = Inl e"
  shows "\<exists>why. e = AuthData why \<and> auth_fault C b why"
proof (cases "length b < 37")
  case True
  then have "e = AuthData (HeaderTooShort (length b))" using bad by (simp add: ParseAuthData_short)
  with True show ?thesis by simp
next
  case False
  then have long: "37 \<le> length b" by simp
  consider (first) "bit (b ! 32) 6" "parse_attested C (header_data b) (drop 37 b) = Inl e"
    | (second) a rest where "bit (b ! 32) 6" "parse_attested C (header_data b) (drop 37 b) = Inr (a, rest)"
        "parse_extensions C a rest = Inl e"
    | (only) "parse_extensions C (header_data b) (drop 37 b) = Inl e"
    using bad long by (auto simp: ParseAuthData_eq bindR_eq_Inl split: if_splits)
  then show ?thesis
  proof cases
    case first
    then show ?thesis by (rule parse_attested_fault [OF doc _ long])
  next
    case second
    obtain pre where a: "ad_Flags a = b ! 32" and pre: "drop 37 b = pre @ rest"
    proof (rule parse_attested_sound [OF doc _ second(2)])
      fix aaguid cid key item
      assume "a = header_data b\<lparr>ad_AAGUID := aaguid, ad_CredentialID := cid, ad_COSEKey := key\<rparr>"
        and "drop 37 b = aaguid @ PutUint16 (of_nat (length cid)) @ cid @ item @ rest"
      then show thesis
        using that [of "aaguid @ PutUint16 (of_nat (length cid)) @ cid @ item"] by simp
    qed simp
    have "length b = 37 + length pre + length rest"
      using arg_cong [OF pre, of length] long by simp
    moreover have "rest = drop (37 + length pre) b"
      using arg_cong [OF pre, of "drop (length pre)"] by (simp add: add.commute)
    ultimately show ?thesis by (intro parse_extensions_fault [OF second(3) a]) auto
  next
    case only
    then show ?thesis by (rule parse_extensions_fault [where n = 37]) (use long in simp_all)
  qed
qed

text \<open>What follows an item or an identifier does not disturb what precedes it.\<close>

lemma ParseAuthData_trailing:
  assumes doc: "cbor_documented C" and ok: "ParseAuthData C b = Inr a"
    and "\<not> bit (ad_Flags a) 7" and "extra \<noteq> []"
  shows "ParseAuthData C (b @ extra) = Inl (AuthData (UnaccountedBytes (length extra)))"
proof -
  obtain item ext where b: "b = auth_data_layout a item ext" "length (ad_RPIDHash a) = 32"
    and att: "attested_ok C a item"
    by (rule layout_sound [OF doc ok])
  define h where "h = zero_auth_data\<lparr>ad_RPIDHash := ad_RPIDHash a, ad_Flags := ad_Flags a,
    ad_SignCount := ad_SignCount a\<rparr>"
  define tail where "tail = (if bit (ad_Flags a) 6
    then ad_AAGUID a @ PutUint16 (of_nat (length (ad_CredentialID a))) @ ad_CredentialID a @ item
    else []) @ extra"
  have "b @ extra = ad_RPIDHash a @ [ad_Flags a] @ PutUint32 (ad_SignCount a) @ tail"
    using assms(3) by (simp add: b auth_data_layout_def tail_def)
  then have "ParseAuthData C (b @ extra) =
     bindR (if bit (ad_Flags a) 6 then parse_attested C h tail else Inr (h, tail))
       (\<lambda>(a, rest). parse_extensions C a rest)"
    using b(2) by (simp add: ParseAuthData_eq header_data_layout [unfolded append.simps] nth_append h_def)
  also have "(if bit (ad_Flags a) 6 then parse_attested C h tail else Inr (h, tail)) =
     Inr (a\<lparr>ad_Extensions := []\<rparr>, extra)"
  proof (cases "bit (ad_Flags a) 6")
    case True
    then show ?thesis
      using att parse_attested_complete [OF doc, of h "ad_AAGUID a" "ad_CredentialID a" item "ad_COSEKey a" extra]
      by (simp add: attested_ok_def tail_def h_def zero_auth_data_def)
  next
    case False
    then show ?thesis using att by (simp add: attested_ok_def tail_def h_def zero_auth_data_def)
  qed
  also have "bindR (Inr (a\<lparr>ad_Extensions := []\<rparr>, extra)) (\<lambda>(a, rest). parse_extensions C a rest) =
      Inl (AuthData (UnaccountedBytes (length extra)))"
    using assms(3,4) by (simp add: parse_extensions_def Flags_Has_bit)
  finally show ?thesis .
qed

section \<open>Properties\<close>

text \<open>
  C10. \<open>ParseAuthData\<close> accepts exactly the byte strings that are laid out as the specification
  says for the result it gives, so that every byte of the input is accounted for by a field: hash,
  flags, count, then the credential if and only if \<open>FlagAT\<close> is set, then the extensions if and only
  if \<open>FlagED\<close> is set, and nothing after them.
\<close>

theorem ParseAuthData_layout:
  assumes "cbor_documented C"
  shows "ParseAuthData C b = Inr a \<longleftrightarrow>
    length (ad_RPIDHash a) = 32 \<and>
    (\<exists>item ext. b = auth_data_layout a item ext \<and> attested_ok C a item \<and> extensions_ok C a ext)"
proof
  assume "ParseAuthData C b = Inr a"
  then show "length (ad_RPIDHash a) = 32 \<and>
    (\<exists>item ext. b = auth_data_layout a item ext \<and> attested_ok C a item \<and> extensions_ok C a ext)"
    by (rule layout_sound [OF assms]) blast
qed (use layout_complete [OF assms] in blast)

definition sample_auth_data :: auth_data where
  "sample_auth_data = \<lparr>ad_RPIDHash = replicate 32 7, ad_Flags = 0xC1, ad_SignCount = 0x102,
     ad_AAGUID = replicate 16 9, ad_CredentialID = [1, 2, 3], ad_COSEKey = [1, 5],
     ad_Extensions = [2, 0, 0]\<rparr>"

theorem ParseAuthData_layout_witness:
  "ParseAuthData tiny_cbor (auth_data_layout sample_auth_data [1, 5] [2, 0, 0]) = Inr sample_auth_data"
proof -
  have "attested_ok tiny_cbor sample_auth_data [1, 5]" "extensions_ok tiny_cbor sample_auth_data [2, 0, 0]"
    by (simp_all add: attested_ok_def extensions_ok_def sample_auth_data_def tiny_cbor_def tiny_item_def
        tiny_raw_def bit_numeral_word_iff)
  moreover have "length (ad_RPIDHash sample_auth_data) = 32" by (simp add: sample_auth_data_def)
  ultimately show ?thesis by (subst ParseAuthData_layout [OF tiny_cbor_documented]) blast
qed

text \<open>
  C29. \<open>ParseAuthData\<close> never panics, whatever bytes it is given, and says no only for one of six
  reasons, each tied to the flag and the lengths that give it (\<open>auth_fault\<close>).
\<close>

theorem ParseAuthData_errors:
  assumes "cbor_documented C" and "ParseAuthData C b = Inl e"
  shows "\<exists>why. e = AuthData why \<and> auth_fault C b why"
  by (rule ParseAuthData_fault [OF assms])

theorem ParseAuthData_errors_witness:
  "\<exists>why. AuthData (UnaccountedBytes 1) = AuthData why \<and> auth_fault tiny_cbor (replicate 38 0) why"
proof (rule ParseAuthData_errors [OF tiny_cbor_documented])
  show "ParseAuthData tiny_cbor (replicate 38 0) = Inl (AuthData (UnaccountedBytes 1))"
    by (simp add: ParseAuthData_eq parse_extensions_def Flags_Has_bit)
qed

text \<open>
  Bytes appended to authenticator data that announces no extensions are never taken for a
  part of it: the same data with anything behind it is refused, with the number of bytes too many.
\<close>

lemma ParseAuthData_refuses_more:
  assumes "cbor_documented C" and "ParseAuthData C b = Inr a"
    and "\<not> Flags_Has (ad_Flags a) FlagED" and "extra \<noteq> []"
  shows "ParseAuthData C (b @ extra) = Inl (AuthData (UnaccountedBytes (length extra)))"
  using ParseAuthData_trailing [OF assms(1,2) _ assms(4)] assms(3) by (simp add: Flags_Has_bit)

end
