(* ===== verification/P256.thy ===== *)
theory P256
  imports Prelude
begin

text \<open>
  What the program uses of \<open>math/big\<close>, \<open>crypto/elliptic\<close> and \<open>crypto/ecdh\<close>: integers as big-endian
  bytes, the curve P-256 with its membership test, and keys that agree on a secret.  Big-endian
  integers of a fixed width are one more \<open>fixed_codec\<close>.
\<close>

section \<open>\<open>big.Int\<close> as bytes\<close>

text \<open>\<open>SetBytes\<close>\<close>

definition SetBytes :: "bytes \<Rightarrow> nat" where
  "SetBytes bs = foldl (\<lambda>v b. 256 * v + unat b) 0 bs"

text \<open>What \<open>FillBytes\<close> writes into a buffer of \<open>n\<close> bytes; it panics when that is too small.\<close>

fun be_bytes :: "nat \<Rightarrow> nat \<Rightarrow> bytes" where
  "be_bytes 0 v = []"
| "be_bytes (Suc n) v = be_bytes n (v div 256) @ [of_nat v]"

definition FillBytes :: "nat \<Rightarrow> nat \<Rightarrow> bytes option" where
  "FillBytes n v = (if v < 256 ^ n then Some (be_bytes n v) else None)"

lemma length_be_bytes [simp]: "length (be_bytes n v) = n"
  by (induction n arbitrary: v) simp_all

lemma SetBytes_snoc [simp]: "SetBytes (bs @ [b]) = 256 * SetBytes bs + unat b"
  by (simp add: SetBytes_def)

lemma SetBytes_Nil [simp]: "SetBytes [] = 0"
  by (simp add: SetBytes_def)

lemma unat_byte_less: "unat (b :: byte) < 256"
  using unsigned_less [of b, where ?'a = nat] by simp

lemma SetBytes_less: "SetBytes bs < 256 ^ length bs"
proof (induction bs rule: rev_induct)
  case (snoc b bs)
  then have "256 * SetBytes bs + 256 \<le> 256 * 256 ^ length bs" by linarith
  with unat_byte_less [of b] show ?case by simp
qed simp

lemma be_bytes_SetBytes: "be_bytes (length bs) (SetBytes bs) = bs"
proof (induction bs rule: rev_induct)
  case (snoc b bs)
  have "(256 * SetBytes bs + unat b) div 256 = SetBytes bs"
    using unat_byte_less [of b] by simp
  moreover have "(256 :: byte) = 0" by simp
  then have "(of_nat (256 * SetBytes bs + unat b) :: byte) = b"
    by (simp only: of_nat_add of_nat_mult of_nat_numeral mult_zero_left add_0) simp
  ultimately show ?case using snoc by simp
qed simp

lemma SetBytes_be_bytes: "v < 256 ^ n \<Longrightarrow> SetBytes (be_bytes n v) = v"
proof (induction n arbitrary: v)
  case (Suc n)
  then have "v div 256 < 256 ^ n" by (simp add: less_mult_imp_div_less mult.commute)
  moreover have "unat (of_nat v :: byte) = v mod 256"
    by (simp add: unat_of_nat take_bit_eq_mod)
  ultimately show ?case using Suc.IH by simp
qed simp

lemma FillBytes_SetBytes: "length bs = n \<Longrightarrow> FillBytes n (SetBytes bs) = Some bs"
  using SetBytes_less [of bs] be_bytes_SetBytes [of bs] by (simp add: FillBytes_def)

section \<open>The curve\<close>

definition p256_p :: int where
  "p256_p = 2 ^ 256 - 2 ^ 224 + 2 ^ 192 + 2 ^ 96 - 1"

definition p256_b :: int where
  "p256_b = 0x5ac635d8aa3a93e7b3ebbd55769886bc651d06b0cc53b0f63bce3c3e27d2604b"

datatype point = Infinity | Affine int int


definition p256_Gx :: int where
  "p256_Gx = 0x6b17d1f2e12c4247f8bce6e563a440f277037d812deb33a0f4a13945d898c296"

definition p256_Gy :: int where
  "p256_Gy = 0x4fe342e2fe1a7f9b8ee7eb4a7c0f9e162bce33576b315ececbb6406837bf51f5"

definition p256_G :: point where
  "p256_G = Affine p256_Gx p256_Gy"

text \<open>\<open>IsOnCurve\<close>: reduced coordinates that satisfy the equation.\<close>

definition IsOnCurve :: "int \<Rightarrow> int \<Rightarrow> bool" where
  "IsOnCurve x y \<longleftrightarrow> 0 \<le> x \<and> x < p256_p \<and> 0 \<le> y \<and> y < p256_p \<and>
     (y * y) mod p256_p = (x * x * x - 3 * x + p256_b) mod p256_p"

fun pow_mod :: "int \<Rightarrow> nat \<Rightarrow> int" where
  "pow_mod a n = (if n = 0 then 1
     else let h = pow_mod (a * a mod p256_p) (n div 2) in if odd n then a * h mod p256_p else h)"

declare pow_mod.simps [simp del]

text \<open>The inverse of a non-zero element, by Fermat's theorem.\<close>

definition inv_mod :: "int \<Rightarrow> int" where
  "inv_mod a = pow_mod (a mod p256_p) (nat (p256_p - 2))"

fun p256_add :: "point \<Rightarrow> point \<Rightarrow> point" where
  "p256_add Infinity q = q"
| "p256_add p Infinity = p"
| "p256_add (Affine x1 y1) (Affine x2 y2) =
     (if x1 = x2 \<and> (y1 + y2) mod p256_p = 0 then Infinity
      else let l = (if x1 = x2 then (3 * x1 * x1 - 3) * inv_mod (2 * y1)
                    else (y2 - y1) * inv_mod (x2 - x1)) mod p256_p;
               x3 = (l * l - x1 - x2) mod p256_p
           in Affine x3 ((l * (x1 - x3) - y1) mod p256_p))"

fun p256_mult :: "nat \<Rightarrow> point \<Rightarrow> point" where
  "p256_mult n q = (if n = 0 then Infinity
     else let h = p256_mult (n div 2) (p256_add q q) in if odd n then p256_add q h else h)"

declare p256_mult.simps [simp del]

section \<open>Keys\<close>

datatype curve = P256 | OtherCurve string

text \<open>\<open>Bytes()\<close> of a public key is its encoding on its curve.\<close>

record ecdh_public =
  pub_curve :: curve
  pub_Bytes :: bytes

fun encode_point :: "point \<Rightarrow> bytes" where
  "encode_point Infinity = [0]"
| "encode_point (Affine x y) = 0x04 # be_bytes 32 (nat x) @ be_bytes 32 (nat y)"

text \<open>
  \<open>P256().NewPublicKey\<close>: an uncompressed point of the curve and nothing else.  The error texts
  of the library stand for its own.
\<close>

definition NewPublicKey :: "bytes \<Rightarrow> string + ecdh_public" where
  "NewPublicKey b =
     (if length b = 65 \<and> b ! 0 = 0x04 \<and>
         IsOnCurve (int (SetBytes (take 32 (drop 1 b)))) (int (SetBytes (drop 33 b)))
      then Inr \<lparr>pub_curve = P256, pub_Bytes = b\<rparr>
      else Inl ''crypto/ecdh: invalid public key'')"

text \<open>
  A private key is what its methods do: \<open>newECDHKey\<close> may be made to return one on any curve.
  \<open>p256_private d\<close> is the key \<open>ecdh.P256()\<close> makes of the scalar \<open>d\<close>.
\<close>

record ecdh_private =
  priv_PublicKey :: ecdh_public
  priv_ECDH :: "ecdh_public \<Rightarrow> string + bytes"

fun decode_point :: "bytes \<Rightarrow> point" where
  "decode_point b = Affine (int (SetBytes (take 32 (drop 1 b)))) (int (SetBytes (drop 33 b)))"

definition p256_ECDH :: "nat \<Rightarrow> ecdh_public \<Rightarrow> string + bytes" where
  "p256_ECDH d pub =
     (if pub_curve pub \<noteq> P256
      then Inl ''crypto/ecdh: private key and public key curves do not match''
      else case p256_mult d (decode_point (pub_Bytes pub)) of
             Infinity \<Rightarrow> Inl ''crypto/ecdh: the shared point is the point at infinity''
           | Affine x y \<Rightarrow> Inr (be_bytes 32 (nat x)))"

definition p256_private :: "nat \<Rightarrow> ecdh_private" where
  "p256_private d =
     \<lparr>priv_PublicKey = \<lparr>pub_curve = P256, pub_Bytes = encode_point (p256_mult d p256_G)\<rparr>,
      priv_ECDH = p256_ECDH d\<rparr>"

section \<open>Lemmas\<close>

lemma IsOnCurve_less:
  "IsOnCurve x y \<Longrightarrow> nat x < 256 ^ 32 \<and> nat y < 256 ^ 32"
  by (auto simp: IsOnCurve_def p256_p_def)

lemma decode_encode: "IsOnCurve x y \<Longrightarrow> decode_point (encode_point (Affine x y)) = Affine x y"
  using IsOnCurve_less [of x y] by (simp add: SetBytes_be_bytes) (simp add: IsOnCurve_def)

lemma NewPublicKey_encode:
  "IsOnCurve x y \<Longrightarrow> NewPublicKey (encode_point (Affine x y)) =
     Inr \<lparr>pub_curve = P256, pub_Bytes = encode_point (Affine x y)\<rparr>"
  using decode_encode [of x y] by (simp add: NewPublicKey_def)

lemma NewPublicKey_ok:
  "NewPublicKey b = Inr pub \<longleftrightarrow> (\<exists>x y. length x = 32 \<and> length y = 32 \<and> b = 0x04 # x @ y \<and>
     IsOnCurve (int (SetBytes x)) (int (SetBytes y))) \<and> pub = \<lparr>pub_curve = P256, pub_Bytes = b\<rparr>"
  (is "_ \<longleftrightarrow> ?point \<and> _")
proof -
  have "?point \<longleftrightarrow> length b = 65 \<and> b ! 0 = 0x04 \<and>
      IsOnCurve (int (SetBytes (take 32 (drop 1 b)))) (int (SetBytes (drop 33 b)))"
  proof
    assume ok: "length b = 65 \<and> b ! 0 = 0x04 \<and>
      IsOnCurve (int (SetBytes (take 32 (drop 1 b)))) (int (SetBytes (drop 33 b)))"
    then have "b = 0x04 # take 32 (drop 1 b) @ drop 33 b"
      by (cases b) (simp_all add: drop_Cons')
    with ok show ?point by (intro exI [of _ "take 32 (drop 1 b)"] exI [of _ "drop 33 b"]) auto
  qed auto
  then show ?thesis by (auto simp: NewPublicKey_def split: if_splits)
qed

lemma G_on_curve: "IsOnCurve p256_Gx p256_Gy"
  by code_simp

lemma p256_add_Infinity [simp]: "p256_add q Infinity = q"
  by (cases q) simp_all

lemma p256_mult_0 [simp]: "p256_mult 0 q = Infinity"
  by (subst p256_mult.simps) simp

lemma p256_mult_1 [simp]: "p256_mult (Suc 0) q = q"
  by (subst p256_mult.simps) simp

end
