(* ===== verification/Cose.thy ===== *)
theory Cose
  imports Authdata P256
begin

text \<open>
  Keys in COSE form: \<open>cose.go\<close>, which turns a credential's key into an ECDSA key, and the two
  conversions at the end of \<open>clientpin.go\<close> between COSE and the keys of \<open>crypto/ecdh\<close>.
\<close>

section \<open>Labels\<close>

definition coseKty :: int where "coseKty = 1"
definition coseAlg :: int where "coseAlg = 3"
definition coseCrv :: int where "coseCrv = -1"
definition coseX :: int where "coseX = -2"
definition coseY :: int where "coseY = -3"

definition coseKtyEC2 :: int where "coseKtyEC2 = 2"
definition coseCrvP256 :: int where "coseCrvP256 = 1"
definition coseP256Size :: nat where "coseP256Size = 32"

definition AlgES256 :: int where "AlgES256 = -7"

lemmas cose_defs = coseKty_def coseAlg_def coseCrv_def coseX_def coseY_def coseKtyEC2_def
  coseCrvP256_def coseP256Size_def AlgES256_def

section \<open>The operations\<close>

text \<open>One turn of the loops over labels: the member must be there and must decode.\<close>

definition cose_member ::
    "(int \<Rightarrow> bytes option) \<Rightarrow> int \<Rightarrow> (bytes \<Rightarrow> ext_error + 'a) \<Rightarrow> error \<Rightarrow> (ext_error \<Rightarrow> error) \<Rightarrow> 'a outcome" where
  "cose_member m label dec lacks bad =
     (case m label of None \<Rightarrow> Inl lacks | Some r \<Rightarrow> wrapExt bad (dec r))"

text \<open>An ECDSA public key on P-256, the only curve the program makes one on.\<close>

record ecdsa_key =
  ec_X :: nat
  ec_Y :: nat

definition key_int :: "cbor \<Rightarrow> (int \<Rightarrow> bytes option) \<Rightarrow> int \<Rightarrow> string \<Rightarrow> int outcome" where
  "key_int C m label what = cose_member m label (cb_int C)
     (CredentialKey (KeyLacks what)) (\<lambda>e. CredentialKey (KeyField what e))"

definition key_coordinate ::
    "cbor \<Rightarrow> (cose_error \<Rightarrow> error) \<Rightarrow> (int \<Rightarrow> bytes option) \<Rightarrow> int \<Rightarrow> string \<Rightarrow> bytes outcome" where
  "key_coordinate C whose m label what = cose_member m label (cb_bytes C)
     (whose (NoCoordinate what)) (\<lambda>e. whose (BadCoordinate what e))"

definition PublicKey :: "cbor \<Rightarrow> auth_data \<Rightarrow> ecdsa_key outcome" where
  "PublicKey C a =
     (if length (ad_COSEKey a) = 0 then Inl (CredentialKey NoCredentialKey)
      else bindR (wrapExt (\<lambda>e. CredentialKey (KeyNotMap e)) (cb_map_i64 C (ad_COSEKey a))) (\<lambda>m.
        bindR (key_int C m coseKty ''key type'') (\<lambda>kty.
        bindR (key_int C m coseAlg ''algorithm'') (\<lambda>alg.
        bindR (key_int C m coseCrv ''curve'') (\<lambda>crv.
        if kty \<noteq> coseKtyEC2 \<or> alg \<noteq> AlgES256 \<or> crv \<noteq> coseCrvP256
        then Inl (CredentialKey (KeyKind kty alg crv))
        else
        bindR (key_coordinate C CredentialKey m coseX ''x'') (\<lambda>x.
        bindR (key_coordinate C CredentialKey m coseY ''y'') (\<lambda>y.
        if length x \<noteq> coseP256Size \<or> length y \<noteq> coseP256Size
        then Inl (CredentialKey (CoordinateSizes (length x) (length y)))
        else let pub = \<lparr>ec_X = SetBytes x, ec_Y = SetBytes y\<rparr> in
          if \<not> IsOnCurve (int (ec_X pub)) (int (ec_Y pub)) then Inl (CredentialKey NotOnCurve)
          else Inr pub)))))))"

definition coseToECDH :: "cbor \<Rightarrow> bytes \<Rightarrow> ecdh_public outcome" where
  "coseToECDH C raw =
     bindR (wrapExt (\<lambda>e. AgreementKey (KeyNotMap e)) (cb_map_i64 C raw)) (\<lambda>m.
       bindR (key_coordinate C AgreementKey m coseX ''x'') (\<lambda>x.
       bindR (key_coordinate C AgreementKey m coseY ''y'') (\<lambda>y.
       if length x \<noteq> coseP256Size \<or> length y \<noteq> coseP256Size
       then Inl (AgreementKey (CoordinateSizes (length x) (length y)))
       else let point = [0x04] @ (x @ y) in
         wrapExt (\<lambda>e. AgreementKey (NotAPoint e)) (NewPublicKey point))))"

definition fill :: "nat \<Rightarrow> nat \<Rightarrow> bytes outcome" where
  "fill n v = (case FillBytes n v of None \<Rightarrow> Inl (Panic BufferTooSmall) | Some b \<Rightarrow> Inr b)"

definition ecdhToCOSE :: "ecdh_public \<Rightarrow> (int \<Rightarrow> gval option) outcome" where
  "ecdhToCOSE pub =
     (let b = pub_Bytes pub in
      bindR (if length b \<noteq> 1 + 2 * coseP256Size then Inr True
             else bindR (index b 0) (\<lambda>b0. Inr (b0 \<noteq> 0x04))) (\<lambda>bad.
      if bad then Inl (AgreementKey (NotUncompressed (length b)))
      else bindR (slice b 1 (1 + coseP256Size)) (\<lambda>xs.
      bindR (slice b (1 + coseP256Size) (length b)) (\<lambda>ys.
      let x = SetBytes xs; y = SetBytes ys in
      bindR (fill coseP256Size x) (\<lambda>xb.
      bindR (fill coseP256Size y) (\<lambda>yb.
      Inr [coseKty \<mapsto> GInt coseKtyEC2, coseAlg \<mapsto> GInt (-25), coseCrv \<mapsto> GInt coseCrvP256,
           coseX \<mapsto> GBytes xb, coseY \<mapsto> GBytes yb]))))))"

section \<open>Lemmas\<close>

text \<open>The member of a map under a label, present and decodable.\<close>

definition has_member :: "('k \<Rightarrow> bytes option) \<Rightarrow> 'k \<Rightarrow> (bytes \<Rightarrow> ext_error + 'a) \<Rightarrow> 'a \<Rightarrow> bool" where
  "has_member m label dec v \<longleftrightarrow> (\<exists>r. m label = Some r \<and> dec r = Inr v)"

lemma cose_member_Inr [go_bind]:
  "cose_member m label dec lacks bad = Inr v \<longleftrightarrow> has_member m label dec v"
  by (auto simp: cose_member_def has_member_def wrapExt_eq_Inr split: option.split)

lemma key_members_Inr [go_bind]:
  "key_int C m label what = Inr i \<longleftrightarrow> has_member m label (cb_int C) i"
  "key_coordinate C whose m label what = Inr b \<longleftrightarrow> has_member m label (cb_bytes C) b"
  by (simp_all add: key_int_def key_coordinate_def cose_member_Inr)

lemma cose_member_no_panic:
  "cose_member m label dec lacks bad = Inl e \<Longrightarrow> e = lacks \<or> (\<exists>msg. e = bad msg)"
  by (auto simp: cose_member_def wrapExt_def split: option.splits sum.splits)

lemma coseToECDH_eq_Inr:
  "coseToECDH C raw = Inr pub \<longleftrightarrow> (\<exists>m x y. cb_map_i64 C raw = Inr m \<and>
     has_member m (-2) (cb_bytes C) x \<and> has_member m (-3) (cb_bytes C) y \<and>
     length x = 32 \<and> length y = 32 \<and> IsOnCurve (int (SetBytes x)) (int (SetBytes y)) \<and>
     pub = \<lparr>pub_curve = P256, pub_Bytes = 0x04 # x @ y\<rparr>)"
  by (auto simp: coseToECDH_def go_bind cose_defs Let_def NewPublicKey_ok split: if_splits) blast+

lemma ecdhToCOSE_eq:
  "ecdhToCOSE pub = (case pub_Bytes pub of
     b # xy \<Rightarrow> if b = 0x04 \<and> length xy = 64
       then Inr [1 \<mapsto> GInt 2, 3 \<mapsto> GInt (-25), -1 \<mapsto> GInt 1, -2 \<mapsto> GBytes (take 32 xy), -3 \<mapsto> GBytes (drop 32 xy)]
       else Inl (AgreementKey (NotUncompressed (Suc (length xy))))
   | [] \<Rightarrow> Inl (AgreementKey (NotUncompressed 0)))"
proof (cases "pub_Bytes pub")
  case (Cons b xy)
  show ?thesis
  proof (cases "length xy = 64")
    case True
    then have "FillBytes 32 (SetBytes (take 32 xy)) = Some (take 32 xy)"
      and "FillBytes 32 (SetBytes (drop 32 xy)) = Some (drop 32 xy)"
      by (simp_all add: FillBytes_SetBytes)
    then show ?thesis
      using True by (simp add: ecdhToCOSE_def Cons cose_defs fill_def)
  qed (simp add: ecdhToCOSE_def Cons cose_defs)
qed (simp add: ecdhToCOSE_def cose_defs)

lemma PublicKey_eq_Inr:
  "PublicKey C a = Inr pub \<longleftrightarrow> ad_COSEKey a \<noteq> [] \<and> (\<exists>m x y. cb_map_i64 C (ad_COSEKey a) = Inr m \<and>
     has_member m 1 (cb_int C) 2 \<and> has_member m 3 (cb_int C) (-7) \<and> has_member m (-1) (cb_int C) 1 \<and>
     has_member m (-2) (cb_bytes C) x \<and> has_member m (-3) (cb_bytes C) y \<and>
     length x = 32 \<and> length y = 32 \<and> IsOnCurve (int (SetBytes x)) (int (SetBytes y)) \<and>
     pub = \<lparr>ec_X = SetBytes x, ec_Y = SetBytes y\<rparr>)"
  by (auto simp: PublicKey_def go_bind cose_defs Let_def split: if_splits)

section \<open>Properties\<close>

text \<open>
  C30. \<open>PublicKey\<close> gives a key exactly when the credential's COSE key is a map that states EC2,
  ES256 and P-256, with two coordinates of exactly 32 bytes that are a point of the curve; and the
  key is that point.
\<close>

theorem PublicKey_accepts:
  "PublicKey C a = Inr pub \<longleftrightarrow> ad_COSEKey a \<noteq> [] \<and> (\<exists>m x y. cb_map_i64 C (ad_COSEKey a) = Inr m \<and>
     has_member m 1 (cb_int C) 2 \<and> has_member m 3 (cb_int C) (-7) \<and> has_member m (-1) (cb_int C) 1 \<and>
     has_member m (-2) (cb_bytes C) x \<and> has_member m (-3) (cb_bytes C) y \<and>
     length x = 32 \<and> length y = 32 \<and> IsOnCurve (int (SetBytes x)) (int (SetBytes y)) \<and>
     pub = \<lparr>ec_X = SetBytes x, ec_Y = SetBytes y\<rparr>)"
  by (rule PublicKey_eq_Inr)

text \<open>
  C33. A key read with \<open>coseToECDH\<close> and written back with \<open>ecdhToCOSE\<close> has the coordinates it came
  with, byte for byte, leading zeroes included; the algorithm written is ECDH-ES+HKDF-256.
\<close>

theorem COSE_roundtrip:
  assumes "coseToECDH C raw = Inr pub"
  shows "\<exists>m x y. cb_map_i64 C raw = Inr m \<and> has_member m (-2) (cb_bytes C) x \<and>
    has_member m (-3) (cb_bytes C) y \<and> ecdhToCOSE pub =
      Inr [1 \<mapsto> GInt 2, 3 \<mapsto> GInt (-25), -1 \<mapsto> GInt 1, -2 \<mapsto> GBytes x, -3 \<mapsto> GBytes y]"
proof -
  obtain m x y where "cb_map_i64 C raw = Inr m" "has_member m (-2) (cb_bytes C) x"
    "has_member m (-3) (cb_bytes C) y" "length x = 32" "length y = 32"
    and pub: "pub = \<lparr>pub_curve = P256, pub_Bytes = 0x04 # x @ y\<rparr>"
    using assms by (auto simp: coseToECDH_eq_Inr)
  then show ?thesis
    by (intro exI [of _ m] exI [of _ x] exI [of _ y]) (simp add: pub ecdhToCOSE_eq)
qed

text \<open>
  A library whose maps all hold the generator of the curve, under the labels and with the kind the
  program asks for.
\<close>

definition Gx_bytes :: bytes where "Gx_bytes = be_bytes 32 (nat p256_Gx)"
definition Gy_bytes :: bytes where "Gy_bytes = be_bytes 32 (nat p256_Gy)"

definition key_cbor :: cbor where
  "key_cbor = tiny_cbor
     \<lparr>cb_map_i64 := (\<lambda>b. Inr [1 \<mapsto> [1, 2], 3 \<mapsto> [1, 7], -1 \<mapsto> [1, 1], -2 \<mapsto> Gx_bytes, -3 \<mapsto> Gy_bytes]),
      cb_map_u64 := (\<lambda>b. Inr [1 \<mapsto> [2, 5]]),
      cb_bytes := (\<lambda>b. Inr b)\<rparr>"

lemma G_bytes [simp]:
  "length Gx_bytes = 32" "length Gy_bytes = 32"
  "int (SetBytes Gx_bytes) = p256_Gx" "int (SetBytes Gy_bytes) = p256_Gy"
proof -
  have "0 \<le> p256_Gx" "0 \<le> p256_Gy" "nat p256_Gx < 256 ^ 32" "nat p256_Gy < 256 ^ 32"
    using IsOnCurve_less [OF G_on_curve] G_on_curve by (simp_all add: IsOnCurve_def)
  then show "length Gx_bytes = 32" "length Gy_bytes = 32"
    "int (SetBytes Gx_bytes) = p256_Gx" "int (SetBytes Gy_bytes) = p256_Gy"
    by (simp_all add: Gx_bytes_def Gy_bytes_def SetBytes_be_bytes)
qed

definition G_public :: ecdh_public where
  "G_public = \<lparr>pub_curve = P256, pub_Bytes = 0x04 # Gx_bytes @ Gy_bytes\<rparr>"

lemma key_cbor_G: "coseToECDH key_cbor raw = Inr G_public"
  using G_on_curve
  by (auto simp: coseToECDH_eq_Inr key_cbor_def has_member_def G_public_def
      intro!: exI [of _ Gx_bytes] exI [of _ Gy_bytes])

theorem COSE_roundtrip_witness:
  "\<exists>m x y. cb_map_i64 key_cbor [] = Inr m \<and> has_member m (-2) (cb_bytes key_cbor) x \<and>
    has_member m (-3) (cb_bytes key_cbor) y \<and> ecdhToCOSE G_public =
      Inr [1 \<mapsto> GInt 2, 3 \<mapsto> GInt (-25), -1 \<mapsto> GInt 1, -2 \<mapsto> GBytes x, -3 \<mapsto> GBytes y]"
  by (rule COSE_roundtrip [OF key_cbor_G])

end
