(* ===== verification/Sha256.thy ===== *)
theory Sha256
  imports Prelude
begin

text \<open>
  \<open>crypto/sha256\<close>, \<open>crypto/hmac\<close> and \<open>crypto/hkdf\<close> of the Go standard library, as FIPS 180-4,
  RFC 2104 and RFC 5869 define them.  HMAC and HKDF are written over any hash function; what
  they need of it is the locale \<open>digest\<close>, which SHA-256 interprets.
\<close>

section \<open>SHA-256\<close>

text \<open>
  The constants are the standard's: the first 32 bits behind the point of the cube roots of the
  first 64 primes, and of the square roots of the first eight.  \<open>root_from k m i r\<close> sets the
  \<open>i\<close> low bits of the integer \<open>k\<close>-th root of \<open>m\<close>, whose higher bits are \<open>r\<close>.
\<close>

fun root_from :: "nat \<Rightarrow> nat \<Rightarrow> nat \<Rightarrow> nat \<Rightarrow> nat" where
  "root_from k m 0 r = r"
| "root_from k m (Suc i) r = root_from k m i (if (r + 2 ^ i) ^ k \<le> m then r + 2 ^ i else r)"

definition root_fraction :: "nat \<Rightarrow> nat \<Rightarrow> u32" where
  "root_fraction k p = of_nat (root_from k (p * 2 ^ (32 * k)) 40 0)"

definition first_primes :: "nat list" where
  "first_primes = filter (\<lambda>n. list_all (\<lambda>d. n mod d \<noteq> 0) [2..<n]) [2..<312]"

definition sha256_K :: "u32 list" where
  "sha256_K = map (root_fraction 3) first_primes"

type_synonym sha_state = "u32 list"

definition sha256_init :: sha_state where
  "sha256_init = map (\<lambda>i. root_fraction 2 (first_primes ! i)) [0..<8]"

definition PutUint64 :: "u64 \<Rightarrow> bytes" where
  "PutUint64 v = map (\<lambda>i. ucast (drop_bit (8 * (7 - i)) v)) [0..<8]"

text \<open>The message, a one bit, zeroes up to eight bytes short of a block, and its length in bits.\<close>

definition sha256_pad :: "bytes \<Rightarrow> bytes" where
  "sha256_pad m = m @ [0x80] @ make_bytes ((119 - length m mod 64) mod 64) @
     PutUint64 (of_nat (8 * length m))"

definition sha256_schedule :: "bytes \<Rightarrow> u32 list" where
  "sha256_schedule block =
     fold (\<lambda>t w. let w2 = w ! (t - 2); w15 = w ! (t - 15);
         s0 = word_rotr 7 w15 XOR word_rotr 18 w15 XOR drop_bit 3 w15;
         s1 = word_rotr 17 w2 XOR word_rotr 19 w2 XOR drop_bit 10 w2
       in w @ [s1 + w ! (t - 7) + s0 + w ! (t - 16)])
       [16..<64] (map (\<lambda>i. get32 (take 4 (drop (4 * i) block))) [0..<16])"

fun sha256_round :: "u32 \<times> u32 \<Rightarrow> sha_state \<Rightarrow> sha_state" where
  "sha256_round (k, w) [a, b, c, d, e, f, g, h] =
     (let S1 = word_rotr 6 e XOR word_rotr 11 e XOR word_rotr 25 e;
          ch = (e AND f) XOR (NOT e AND g);
          t1 = h + S1 + ch + k + w;
          S0 = word_rotr 2 a XOR word_rotr 13 a XOR word_rotr 22 a;
          maj = (a AND b) XOR (a AND c) XOR (b AND c);
          t2 = S0 + maj
      in [t1 + t2, a, b, c, d + t1, e, f, g])"
| "sha256_round _ s = s"

definition sha256_compress :: "sha_state \<Rightarrow> bytes \<Rightarrow> sha_state" where
  "sha256_compress h block =
     map2 (+) h (fold sha256_round (zip sha256_K (sha256_schedule block)) h)"

fun sha256_blocks :: "sha_state \<Rightarrow> bytes \<Rightarrow> sha_state" where
  "sha256_blocks h b =
     (if length b < 64 then h else sha256_blocks (sha256_compress h (take 64 b)) (drop 64 b))"

declare sha256_blocks.simps [simp del]

definition sha256 :: "bytes \<Rightarrow> bytes" where
  "sha256 m = concat (map PutUint32 (sha256_blocks sha256_init (sha256_pad m)))"

section \<open>HMAC and HKDF\<close>

text \<open>\<open>H\<close> is the hash function and \<open>bs\<close> its block size.\<close>

definition hmac_key :: "(bytes \<Rightarrow> bytes) \<Rightarrow> nat \<Rightarrow> bytes \<Rightarrow> bytes" where
  "hmac_key H bs key =
     (let k = (if bs < length key then H key else key) in k @ make_bytes (bs - length k))"

definition hmac :: "(bytes \<Rightarrow> bytes) \<Rightarrow> nat \<Rightarrow> bytes \<Rightarrow> bytes \<Rightarrow> bytes" where
  "hmac H bs key m =
     (let k = hmac_key H bs key
      in H (map (\<lambda>b. b XOR 0x5C) k @ H (map (\<lambda>b. b XOR 0x36) k @ m)))"

text \<open>\<open>T(1) | ... | T(n)\<close>, where \<open>T(i)\<close> is the MAC of \<open>T(i-1) | info | i\<close>.\<close>

fun hkdf_blocks :: "(bytes \<Rightarrow> bytes) \<Rightarrow> bytes \<Rightarrow> bytes \<Rightarrow> nat \<Rightarrow> nat \<Rightarrow> bytes" where
  "hkdf_blocks mac info prev i 0 = []"
| "hkdf_blocks mac info prev i (Suc n) =
     (let t = mac (prev @ info @ [of_nat i]) in t @ hkdf_blocks mac info t (Suc i) n)"

definition hkdf :: "(bytes \<Rightarrow> bytes) \<Rightarrow> nat \<Rightarrow> nat \<Rightarrow> bytes \<Rightarrow> bytes \<Rightarrow> bytes \<Rightarrow> nat \<Rightarrow> bytes" where
  "hkdf H bs hlen secret salt info n =
     (let prk = hmac H bs (if salt = [] then make_bytes hlen else salt) secret
      in take n (hkdf_blocks (hmac H bs prk) info [] 1 ((n + hlen - 1) div hlen)))"

section \<open>What a hash function promises\<close>

locale digest =
  fixes H :: "bytes \<Rightarrow> bytes" and bs hlen :: nat
  assumes length_H: "length (H m) = hlen"
    and size_pos: "0 < hlen"
    and size_le: "hlen \<le> bs"
begin

lemma length_hmac_key: "length (hmac_key H bs key) = bs"
  by (simp add: hmac_key_def Let_def length_H size_le)

lemma length_hmac: "length (hmac H bs key m) = hlen"
  by (simp add: hmac_def Let_def length_H)

text \<open>A key longer than a block is the same as its hash; a shorter one as its padding.\<close>

lemma hmac_long_key: "bs < length key \<Longrightarrow> hmac H bs (H key) m = hmac H bs key m"
  using size_le by (simp add: hmac_def hmac_key_def length_H Let_def)

lemma hmac_padded_key: "length key \<le> bs \<Longrightarrow> hmac H bs (key @ make_bytes (bs - length key)) m = hmac H bs key m"
  by (simp add: hmac_def hmac_key_def)

lemma length_hkdf_blocks: "length (hkdf_blocks (hmac H bs prk) info prev i n) = n * hlen"
  by (induction n arbitrary: prev i) (simp_all add: Let_def length_hmac)

lemma length_hkdf: "length (hkdf H bs hlen secret salt info n) = n"
proof -
  have "n \<le> (n + hlen - 1) div hlen * hlen"
    using size_pos mod_less_divisor [OF size_pos, of "n + hlen - 1"]
      div_mult_mod_eq [of "n + hlen - 1" hlen] by linarith
  then show ?thesis by (simp add: hkdf_def Let_def length_hkdf_blocks)
qed

end

lemma length_sha256_round [simp]: "length (sha256_round kw s) = length s"
  by (cases "(kw, s)" rule: sha256_round.cases) (simp_all add: Let_def)

lemma length_fold_rounds: "length (fold sha256_round kws s) = length s"
  by (induction kws arbitrary: s) simp_all

lemma length_compress [simp]: "length (sha256_compress h b) = length h"
  by (simp add: sha256_compress_def length_fold_rounds)

lemma length_sha256_blocks: "length (sha256_blocks h b) = length h"
proof (induction h b rule: sha256_blocks.induct)
  case (1 h b)
  then show ?case by (subst sha256_blocks.simps) simp
qed

lemma length_sha256 [simp]: "length (sha256 m) = 32"
proof -
  have "length (concat (map PutUint32 ws)) = 4 * length ws" for ws
    by (induction ws) simp_all
  then show ?thesis by (simp add: sha256_def length_sha256_blocks sha256_init_def)
qed

interpretation sha256: digest sha256 64 32
  by unfold_locales simp_all

text \<open>The library's entry points, with the errors they have.\<close>

definition hmac_sha256 :: "bytes \<Rightarrow> bytes \<Rightarrow> bytes" where
  "hmac_sha256 = hmac sha256 64"

definition hkdf_Key :: "bytes \<Rightarrow> bytes \<Rightarrow> string \<Rightarrow> nat \<Rightarrow> string + bytes" where
  "hkdf_Key secret salt info n =
     (if 255 * 32 < n then Inl ''hkdf: requested key length too large''
      else Inr (hkdf sha256 64 32 secret salt (bytes_of_string info) n))"

lemma length_hmac_sha256 [simp]: "length (hmac_sha256 key m) = 32"
  by (simp add: hmac_sha256_def sha256.length_hmac)

lemma hkdf_Key_length: "hkdf_Key secret salt info n = Inr k \<Longrightarrow> length k = n"
  by (auto simp: hkdf_Key_def sha256.length_hkdf split: if_splits)

end
