(* ===== verification/Aes.thy ===== *)
theory Aes
  imports Prelude
begin

text \<open>
  \<open>crypto/aes\<close> and the CBC mode of \<open>crypto/cipher\<close>, as FIPS 197 and SP 800-38A define them.  CBC
  is written over any block cipher; what it needs of one is the locale \<open>block_cipher\<close>, in which
  decryption is shown to undo encryption, and which AES interprets at its three key sizes.
\<close>

section \<open>Bytes and columns\<close>

definition aes_sbox :: "nat list list" where
  "aes_sbox =
     [[0x63, 0x7c, 0x77, 0x7b, 0xf2, 0x6b, 0x6f, 0xc5, 0x30, 0x01, 0x67, 0x2b, 0xfe, 0xd7, 0xab, 0x76],
      [0xca, 0x82, 0xc9, 0x7d, 0xfa, 0x59, 0x47, 0xf0, 0xad, 0xd4, 0xa2, 0xaf, 0x9c, 0xa4, 0x72, 0xc0],
      [0xb7, 0xfd, 0x93, 0x26, 0x36, 0x3f, 0xf7, 0xcc, 0x34, 0xa5, 0xe5, 0xf1, 0x71, 0xd8, 0x31, 0x15],
      [0x04, 0xc7, 0x23, 0xc3, 0x18, 0x96, 0x05, 0x9a, 0x07, 0x12, 0x80, 0xe2, 0xeb, 0x27, 0xb2, 0x75],
      [0x09, 0x83, 0x2c, 0x1a, 0x1b, 0x6e, 0x5a, 0xa0, 0x52, 0x3b, 0xd6, 0xb3, 0x29, 0xe3, 0x2f, 0x84],
      [0x53, 0xd1, 0x00, 0xed, 0x20, 0xfc, 0xb1, 0x5b, 0x6a, 0xcb, 0xbe, 0x39, 0x4a, 0x4c, 0x58, 0xcf],
      [0xd0, 0xef, 0xaa, 0xfb, 0x43, 0x4d, 0x33, 0x85, 0x45, 0xf9, 0x02, 0x7f, 0x50, 0x3c, 0x9f, 0xa8],
      [0x51, 0xa3, 0x40, 0x8f, 0x92, 0x9d, 0x38, 0xf5, 0xbc, 0xb6, 0xda, 0x21, 0x10, 0xff, 0xf3, 0xd2],
      [0xcd, 0x0c, 0x13, 0xec, 0x5f, 0x97, 0x44, 0x17, 0xc4, 0xa7, 0x7e, 0x3d, 0x64, 0x5d, 0x19, 0x73],
      [0x60, 0x81, 0x4f, 0xdc, 0x22, 0x2a, 0x90, 0x88, 0x46, 0xee, 0xb8, 0x14, 0xde, 0x5e, 0x0b, 0xdb],
      [0xe0, 0x32, 0x3a, 0x0a, 0x49, 0x06, 0x24, 0x5c, 0xc2, 0xd3, 0xac, 0x62, 0x91, 0x95, 0xe4, 0x79],
      [0xe7, 0xc8, 0x37, 0x6d, 0x8d, 0xd5, 0x4e, 0xa9, 0x6c, 0x56, 0xf4, 0xea, 0x65, 0x7a, 0xae, 0x08],
      [0xba, 0x78, 0x25, 0x2e, 0x1c, 0xa6, 0xb4, 0xc6, 0xe8, 0xdd, 0x74, 0x1f, 0x4b, 0xbd, 0x8b, 0x8a],
      [0x70, 0x3e, 0xb5, 0x66, 0x48, 0x03, 0xf6, 0x0e, 0x61, 0x35, 0x57, 0xb9, 0x86, 0xc1, 0x1d, 0x9e],
      [0xe1, 0xf8, 0x98, 0x11, 0x69, 0xd9, 0x8e, 0x94, 0x9b, 0x1e, 0x87, 0xe9, 0xce, 0x55, 0x28, 0xdf],
      [0x8c, 0xa1, 0x89, 0x0d, 0xbf, 0xe6, 0x42, 0x68, 0x41, 0x99, 0x2d, 0x0f, 0xb0, 0x54, 0xbb, 0x16]]"

definition aes_inv_sbox :: "nat list list" where
  "aes_inv_sbox =
     [[0x52, 0x09, 0x6a, 0xd5, 0x30, 0x36, 0xa5, 0x38, 0xbf, 0x40, 0xa3, 0x9e, 0x81, 0xf3, 0xd7, 0xfb],
      [0x7c, 0xe3, 0x39, 0x82, 0x9b, 0x2f, 0xff, 0x87, 0x34, 0x8e, 0x43, 0x44, 0xc4, 0xde, 0xe9, 0xcb],
      [0x54, 0x7b, 0x94, 0x32, 0xa6, 0xc2, 0x23, 0x3d, 0xee, 0x4c, 0x95, 0x0b, 0x42, 0xfa, 0xc3, 0x4e],
      [0x08, 0x2e, 0xa1, 0x66, 0x28, 0xd9, 0x24, 0xb2, 0x76, 0x5b, 0xa2, 0x49, 0x6d, 0x8b, 0xd1, 0x25],
      [0x72, 0xf8, 0xf6, 0x64, 0x86, 0x68, 0x98, 0x16, 0xd4, 0xa4, 0x5c, 0xcc, 0x5d, 0x65, 0xb6, 0x92],
      [0x6c, 0x70, 0x48, 0x50, 0xfd, 0xed, 0xb9, 0xda, 0x5e, 0x15, 0x46, 0x57, 0xa7, 0x8d, 0x9d, 0x84],
      [0x90, 0xd8, 0xab, 0x00, 0x8c, 0xbc, 0xd3, 0x0a, 0xf7, 0xe4, 0x58, 0x05, 0xb8, 0xb3, 0x45, 0x06],
      [0xd0, 0x2c, 0x1e, 0x8f, 0xca, 0x3f, 0x0f, 0x02, 0xc1, 0xaf, 0xbd, 0x03, 0x01, 0x13, 0x8a, 0x6b],
      [0x3a, 0x91, 0x11, 0x41, 0x4f, 0x67, 0xdc, 0xea, 0x97, 0xf2, 0xcf, 0xce, 0xf0, 0xb4, 0xe6, 0x73],
      [0x96, 0xac, 0x74, 0x22, 0xe7, 0xad, 0x35, 0x85, 0xe2, 0xf9, 0x37, 0xe8, 0x1c, 0x75, 0xdf, 0x6e],
      [0x47, 0xf1, 0x1a, 0x71, 0x1d, 0x29, 0xc5, 0x89, 0x6f, 0xb7, 0x62, 0x0e, 0xaa, 0x18, 0xbe, 0x1b],
      [0xfc, 0x56, 0x3e, 0x4b, 0xc6, 0xd2, 0x79, 0x20, 0x9a, 0xdb, 0xc0, 0xfe, 0x78, 0xcd, 0x5a, 0xf4],
      [0x1f, 0xdd, 0xa8, 0x33, 0x88, 0x07, 0xc7, 0x31, 0xb1, 0x12, 0x10, 0x59, 0x27, 0x80, 0xec, 0x5f],
      [0x60, 0x51, 0x7f, 0xa9, 0x19, 0xb5, 0x4a, 0x0d, 0x2d, 0xe5, 0x7a, 0x9f, 0x93, 0xc9, 0x9c, 0xef],
      [0xa0, 0xe0, 0x3b, 0x4d, 0xae, 0x2a, 0xf5, 0xb0, 0xc8, 0xeb, 0xbb, 0x3c, 0x83, 0x53, 0x99, 0x61],
      [0x17, 0x2b, 0x04, 0x7e, 0xba, 0x77, 0xd6, 0x26, 0xe1, 0x69, 0x14, 0x63, 0x55, 0x21, 0x0c, 0x7d]]"

definition lookup_byte :: "nat list list \<Rightarrow> byte \<Rightarrow> byte" where
  "lookup_byte t b = of_nat (t ! (unat b div 16) ! (unat b mod 16))"

text \<open>Multiplication by two in the field of 256 elements, and by the other constants.\<close>

definition xtime :: "byte \<Rightarrow> byte" where
  "xtime b = push_bit 1 b XOR (if bit b 7 then 0x1B else 0)"

fun mix_column :: "bytes \<Rightarrow> bytes" where
  "mix_column [a, b, c, d] =
     [xtime a XOR (xtime b XOR b) XOR c XOR d,
      a XOR xtime b XOR (xtime c XOR c) XOR d,
      a XOR b XOR xtime c XOR (xtime d XOR d),
      (xtime a XOR a) XOR b XOR c XOR xtime d]"
| "mix_column s = s"

definition mul9 :: "byte \<Rightarrow> byte" where "mul9 a = xtime (xtime (xtime a)) XOR a"
definition mul11 :: "byte \<Rightarrow> byte" where "mul11 a = xtime (xtime (xtime a)) XOR xtime a XOR a"
definition mul13 :: "byte \<Rightarrow> byte" where "mul13 a = xtime (xtime (xtime a)) XOR xtime (xtime a) XOR a"
definition mul14 :: "byte \<Rightarrow> byte" where
  "mul14 a = xtime (xtime (xtime a)) XOR xtime (xtime a) XOR xtime a"

fun inv_mix_column :: "bytes \<Rightarrow> bytes" where
  "inv_mix_column [a, b, c, d] =
     [mul14 a XOR mul11 b XOR mul13 c XOR mul9 d,
      mul9 a XOR mul14 b XOR mul11 c XOR mul13 d,
      mul13 a XOR mul9 b XOR mul14 c XOR mul11 d,
      mul11 a XOR mul13 b XOR mul9 c XOR mul14 d]"
| "inv_mix_column s = s"

section \<open>The rounds, on a block of sixteen bytes, column by column\<close>

abbreviation xor_bytes :: "bytes \<Rightarrow> bytes \<Rightarrow> bytes" where
  "xor_bytes \<equiv> map2 (XOR)"

definition sub_bytes :: "bytes \<Rightarrow> bytes" where "sub_bytes = map (lookup_byte aes_sbox)"
definition inv_sub_bytes :: "bytes \<Rightarrow> bytes" where "inv_sub_bytes = map (lookup_byte aes_inv_sbox)"

definition shift_rows :: "bytes \<Rightarrow> bytes" where
  "shift_rows s = map ((!) s) [0, 5, 10, 15, 4, 9, 14, 3, 8, 13, 2, 7, 12, 1, 6, 11]"

definition inv_shift_rows :: "bytes \<Rightarrow> bytes" where
  "inv_shift_rows s = map ((!) s) [0, 13, 10, 7, 4, 1, 14, 11, 8, 5, 2, 15, 12, 9, 6, 3]"

definition on_columns :: "(bytes \<Rightarrow> bytes) \<Rightarrow> bytes \<Rightarrow> bytes" where
  "on_columns f s = f (take 4 s) @ f (take 4 (drop 4 s)) @ f (take 4 (drop 8 s)) @ f (take 4 (drop 12 s))"

definition aes_round :: "bytes \<Rightarrow> bytes \<Rightarrow> bytes" where
  "aes_round rk s = xor_bytes (on_columns mix_column (shift_rows (sub_bytes s))) rk"

definition aes_last_round :: "bytes \<Rightarrow> bytes \<Rightarrow> bytes" where
  "aes_last_round rk s = xor_bytes (shift_rows (sub_bytes s)) rk"

definition aes_inv_round :: "bytes \<Rightarrow> bytes \<Rightarrow> bytes" where
  "aes_inv_round rk s = inv_sub_bytes (inv_shift_rows (on_columns inv_mix_column (xor_bytes s rk)))"

definition aes_inv_last_round :: "bytes \<Rightarrow> bytes \<Rightarrow> bytes" where
  "aes_inv_last_round rk s = inv_sub_bytes (inv_shift_rows (xor_bytes s rk))"

section \<open>The key schedule\<close>

text \<open>Words of four bytes: \<open>nk\<close> of them are the key, and each further one is made of the last.\<close>

fun rcon :: "nat \<Rightarrow> byte" where
  "rcon 0 = 1"
| "rcon (Suc i) = xtime (rcon i)"

definition next_word :: "nat \<Rightarrow> bytes list \<Rightarrow> bytes" where
  "next_word nk ws =
     (let i = length ws; t = last ws;
          t = (if i mod nk = 0 then xor_bytes (sub_bytes (rotate1 t)) [rcon (i div nk - 1), 0, 0, 0]
               else if 6 < nk \<and> i mod nk = 4 then sub_bytes t else t)
      in xor_bytes (ws ! (i - nk)) t)"

definition key_words :: "bytes \<Rightarrow> bytes list" where
  "key_words key =
     (let nk = length key div 4
      in ((\<lambda>ws. ws @ [next_word nk ws]) ^^ (4 * (nk + 7) - nk))
           (map (\<lambda>i. take 4 (drop (4 * i) key)) [0..<nk]))"

text \<open>Round key \<open>r\<close>: a whole block, also where the words are malformed.\<close>

definition round_keys :: "bytes \<Rightarrow> bytes list" where
  "round_keys key =
     (let ws = key_words key
      in map (\<lambda>r. go_copy (make_bytes 16) (concat (take 4 (drop (4 * r) ws)))) [0..<length key div 4 + 7])"

definition aes_encrypt :: "bytes \<Rightarrow> bytes \<Rightarrow> bytes" where
  "aes_encrypt key b =
     (let ks = round_keys key
      in aes_last_round (last ks) (fold aes_round (butlast (tl ks)) (xor_bytes b (hd ks))))"

definition aes_decrypt :: "bytes \<Rightarrow> bytes \<Rightarrow> bytes" where
  "aes_decrypt key c =
     (let ks = round_keys key
      in xor_bytes (fold aes_inv_round (rev (butlast (tl ks))) (aes_inv_last_round (last ks) c)) (hd ks))"

text \<open>\<open>aes.NewCipher\<close> takes keys of three lengths and no other.\<close>

definition aes_key_size_ok :: "nat \<Rightarrow> bool" where
  "aes_key_size_ok n \<longleftrightarrow> n = 16 \<or> n = 24 \<or> n = 32"

definition aes_NewCipher :: "bytes \<Rightarrow> string + bytes" where
  "aes_NewCipher key =
     (if aes_key_size_ok (length key) then Inr key else Inl ''crypto/aes: invalid key size'')"

section \<open>CBC\<close>

text \<open>\<open>CryptBlocks\<close> over a whole number of blocks of \<open>n\<close> bytes.\<close>

function cbc_encrypt :: "nat \<Rightarrow> (bytes \<Rightarrow> bytes) \<Rightarrow> bytes \<Rightarrow> bytes \<Rightarrow> bytes" where
  "cbc_encrypt n E iv p =
     (if n = 0 \<or> length p < n then []
      else let c = E (xor_bytes (take n p) iv) in c @ cbc_encrypt n E c (drop n p))"
  by pat_completeness auto
termination by (relation "measure (\<lambda>(n, E, iv, p). length p)") auto

function cbc_decrypt :: "nat \<Rightarrow> (bytes \<Rightarrow> bytes) \<Rightarrow> bytes \<Rightarrow> bytes \<Rightarrow> bytes" where
  "cbc_decrypt n D iv c =
     (if n = 0 \<or> length c < n then []
      else xor_bytes (D (take n c)) iv @ cbc_decrypt n D (take n c) (drop n c))"
  by pat_completeness auto
termination by (relation "measure (\<lambda>(n, D, iv, c). length c)") auto

declare cbc_encrypt.simps [simp del] cbc_decrypt.simps [simp del]

section \<open>The tables undo each other\<close>

text \<open>
  The two look-ups are evaluated over the whole table; \<open>get2\<close> and the congruences keep the
  simplifier out of the tables while it does.
\<close>

fun get2 :: "nat list list \<Rightarrow> nat \<Rightarrow> nat \<Rightarrow> nat" where
  "get2 (r # rs) a b = (if a = 0 then r ! b else get2 rs (a - 1) b)"
| "get2 [] a b = 0"

lemma get2_nth: "a < length t \<Longrightarrow> get2 t a b = t ! a ! b"
  by (induction t a b rule: get2.induct) (auto simp: nth_Cons')

lemma nth_weak: "i = j \<Longrightarrow> xs ! i = xs ! j"
  by simp

lemma get2_weak: "a = a' \<Longrightarrow> b = b' \<Longrightarrow> get2 t a b = get2 t a' b'"
  by simp

lemma upt_16: "[0..<16] = [0, 1, 2, 3, 4, 5, 6, 7, 8, 9, 10, 11, 12, 13, 14, 15]"
  by (simp add: upt_rec)

lemma inv_sbox_rows:
  "map (map (\<lambda>v. get2 aes_inv_sbox (v div 16) (v mod 16))) aes_sbox =
     map (\<lambda>i. map (\<lambda>j. 16 * i + j) [0..<16]) [0..<16]"
  unfolding aes_sbox_def aes_inv_sbox_def upt_16
  by (simp cong: nth_weak get2_weak)

lemma sbox_shape:
  "length aes_sbox = 16" "list_all (\<lambda>r. length r = 16 \<and> list_all (\<lambda>v. v < 256) r) aes_sbox"
  "length aes_inv_sbox = 16"
  by (simp_all add: aes_sbox_def aes_inv_sbox_def)

lemma inv_sbox_sbox [simp]: "lookup_byte aes_inv_sbox (lookup_byte aes_sbox b) = b"
proof -
  define i where "i = unat b div 16"
  define j where "j = unat b mod 16"
  define v where "v = aes_sbox ! i ! j"
  have i: "i < 16" and j: "j < 16"
    using unsigned_less [of b, where ?'a = nat] by (simp_all add: i_def j_def less_mult_imp_div_less)
  have row: "length (aes_sbox ! i) = 16" and v: "v < 256"
    using sbox_shape i j by (auto simp: list_all_length v_def)
  have "map (map (\<lambda>v. get2 aes_inv_sbox (v div 16) (v mod 16))) aes_sbox ! i ! j = 16 * i + j"
    unfolding inv_sbox_rows using i j by simp
  then have "get2 aes_inv_sbox (v div 16) (v mod 16) = 16 * i + j"
    using i j row by (simp add: v_def sbox_shape)
  then have "aes_inv_sbox ! (v div 16) ! (v mod 16) = unat b"
    using v by (simp add: get2_nth sbox_shape less_mult_imp_div_less i_def j_def)
  moreover have "unat (of_nat v :: byte) = v"
    using v by (simp add: unat_of_nat take_bit_nat_eq_self)
  ultimately show ?thesis by (simp add: lookup_byte_def v_def i_def j_def)
qed

section \<open>A round undone\<close>

lemma xtime_xor: "xtime (a XOR b) = xtime a XOR xtime b"
proof -
  have "push_bit 1 (a XOR b) = push_bit 1 a XOR push_bit 1 b" by (rule push_bit_xor)
  then show ?thesis by (simp add: xtime_def bit_xor_iff ac_simps)
qed

lemma xor_cancel [simp]: "(a :: byte) XOR (a XOR b) = b"
  by (simp add: xor.assoc [symmetric])

lemma inv_mix_mix: "length s = 4 \<Longrightarrow> inv_mix_column (mix_column s) = s"
  by (auto simp: length_4_cases mul9_def mul11_def mul13_def mul14_def xtime_xor ac_simps)

lemma length_mix_column [simp]: "length (mix_column s) = length s"
  by (cases s rule: mix_column.cases) simp_all

lemma length_xor_bytes: "length (xor_bytes s t) = min (length s) (length t)"
  by simp

lemma xor_bytes_twice: "length s = length t \<Longrightarrow> xor_bytes (xor_bytes s t) t = s"
  by (induction s t rule: list_induct2) (simp_all add: xor.assoc)

lemma inv_sub_sub: "inv_sub_bytes (sub_bytes s) = s"
  by (simp add: inv_sub_bytes_def sub_bytes_def map_idI)

lemma inv_shift_shift: "length s = 16 \<Longrightarrow> inv_shift_rows (shift_rows s) = s"
proof -
  assume "length s = 16"
  then have "map ((!) s) [0..<16] = s" using map_nth [of s] by simp
  moreover have "inv_shift_rows (shift_rows s) = map ((!) s) [0..<16]"
    by (simp add: inv_shift_rows_def shift_rows_def upt_16)
  ultimately show ?thesis by simp
qed

lemma inv_columns:
  assumes "\<And>c. length c = 4 \<Longrightarrow> g (f c) = c" and "\<And>c. length (f c) = length c" and "length s = 16"
  shows "on_columns g (on_columns f s) = s"
proof -
  have "s = take 4 s @ take 4 (drop 4 s) @ take 4 (drop 8 s) @ take 4 (drop 12 s)"
    using assms(3) cut_twice [of s 4 4] cut_twice [of "drop 8 s" 4 4] by simp
  then show ?thesis using assms by (simp add: on_columns_def)
qed

lemma block_lengths [simp]:
  "length (sub_bytes s) = length s" "length (shift_rows s) = 16"
  "length s = 16 \<Longrightarrow> length (on_columns mix_column s) = 16"
  by (simp_all add: sub_bytes_def shift_rows_def on_columns_def)

lemma inv_round:
  assumes "length s = 16" and "length rk = 16"
  shows "aes_inv_round rk (aes_round rk s) = s" and "length (aes_round rk s) = 16"
  using assms
  by (simp_all add: aes_inv_round_def aes_round_def xor_bytes_twice inv_columns inv_mix_mix
      inv_shift_shift inv_sub_sub)

lemma inv_last_round:
  assumes "length s = 16" and "length rk = 16"
  shows "aes_inv_last_round rk (aes_last_round rk s) = s" and "length (aes_last_round rk s) = 16"
  using assms
  by (simp_all add: aes_inv_last_round_def aes_last_round_def xor_bytes_twice inv_shift_shift inv_sub_sub)

lemma inv_rounds:
  assumes "\<forall>k \<in> set ks. length k = 16" and "length s = 16"
  shows "fold aes_inv_round (rev ks) (fold aes_round ks s) = s \<and> length (fold aes_round ks s) = 16"
  using assms by (induction ks arbitrary: s) (simp_all add: inv_round)

lemma round_keys_shape: "\<forall>k \<in> set (round_keys key). length k = 16" "7 \<le> length (round_keys key)"
  by (auto simp: round_keys_def Let_def)

lemma aes_decrypt_encrypt:
  assumes "length b = 16"
  shows "aes_decrypt key (aes_encrypt key b) = b" and "length (aes_encrypt key b) = 16"
proof -
  obtain k0 ks kn where keys: "round_keys key = k0 # ks @ [kn]"
    using round_keys_shape(2) [of key]
    by (cases "round_keys key"; cases "tl (round_keys key)" rule: rev_cases) auto
  then have "\<forall>k \<in> set ks. length k = 16" "length k0 = 16" "length kn = 16"
    using round_keys_shape(1) [of key] by auto
  then show "aes_decrypt key (aes_encrypt key b) = b" and "length (aes_encrypt key b) = 16"
    using assms inv_rounds [of ks "xor_bytes b k0"]
    by (simp_all add: aes_decrypt_def aes_encrypt_def keys inv_last_round xor_bytes_twice)
qed

section \<open>What a block cipher promises, and CBC over it\<close>

locale block_cipher =
  fixes n :: nat and E D :: "bytes \<Rightarrow> bytes"
  assumes n_pos: "0 < n"
    and length_E: "length b = n \<Longrightarrow> length (E b) = n"
    and D_E: "length b = n \<Longrightarrow> D (E b) = b"
begin

lemma length_cbc_encrypt:
  "length iv = n \<Longrightarrow> length p = n * m \<Longrightarrow> length (cbc_encrypt n E iv p) = n * m"
proof (induction m arbitrary: iv p)
  case 0
  then show ?case by (subst cbc_encrypt.simps) (use n_pos in simp)
next
  case (Suc m)
  then show ?case
    by (subst cbc_encrypt.simps) (use n_pos in \<open>simp add: Let_def length_E\<close>)
qed

lemma cbc_decrypt_encrypt:
  "length iv = n \<Longrightarrow> length p = n * m \<Longrightarrow> cbc_decrypt n D iv (cbc_encrypt n E iv p) = p"
proof (induction m arbitrary: iv p)
  case 0
  then show ?case
    by (subst cbc_encrypt.simps, subst cbc_decrypt.simps) (use n_pos in simp)
next
  case (Suc m)
  define c where "c = E (xor_bytes (take n p) iv)"
  have len: "length c = n" using Suc.prems by (simp add: c_def length_E)
  have "cbc_encrypt n E iv p = c @ cbc_encrypt n E c (drop n p)"
    using Suc.prems n_pos by (subst cbc_encrypt.simps) (simp add: Let_def c_def)
  moreover have "cbc_decrypt n D c (cbc_encrypt n E c (drop n p)) = drop n p"
    using Suc.prems len by (intro Suc.IH) simp_all
  moreover have "xor_bytes (D c) iv = take n p"
    using Suc.prems by (simp add: c_def D_E xor_bytes_twice)
  ultimately show ?case
    using len n_pos by (subst cbc_decrypt.simps) simp
qed

text \<open>Under one vector, distinct messages of the same length have distinct ciphertexts.\<close>

lemma cbc_encrypt_inject:
  "length iv = n \<Longrightarrow> length p = n * m \<Longrightarrow> length q = n * m' \<Longrightarrow>
     cbc_encrypt n E iv p = cbc_encrypt n E iv q \<Longrightarrow> p = q"
  by (metis cbc_decrypt_encrypt)

end

interpretation aes: block_cipher 16 "aes_encrypt key" "aes_decrypt key"
  by unfold_locales (simp_all add: aes_decrypt_encrypt)

lemma length_cbc_decrypt:
  assumes "\<And>b. length b = n \<Longrightarrow> length (D b) = n"
  shows "length iv = n \<Longrightarrow> length c = n * m \<Longrightarrow> length (cbc_decrypt n D iv c) = (if n = 0 then 0 else n * m)"
proof (induction m arbitrary: iv c)
  case 0
  then show ?case by (subst cbc_decrypt.simps) simp
next
  case (Suc m)
  then show ?case
    by (subst cbc_decrypt.simps) (simp add: assms)
qed

end
