(* ===== verification/PinProto.thy ===== *)
theory PinProto
  imports Cose Sha256 Aes
begin

text \<open>
  \<open>pinproto.go\<close>: the two PIN/UV auth protocols.  What they have in common is the locale
  \<open>pin_protocol\<close>: a sealing that its opening undoes, of a known overhead, and a tag of a known
  length.  Protocol one and protocol two, over any shared secret, are its interpretations.
\<close>

section \<open>Types and seams\<close>

type_synonym PINProtocol = int

definition PINProtocolOne :: PINProtocol where "PINProtocolOne = 1"
definition PINProtocolTwo :: PINProtocol where "PINProtocolTwo = 2"

lemmas protocol_defs = PINProtocolOne_def PINProtocolTwo_def

definition PINProtocol_String :: "PINProtocol \<Rightarrow> string" where
  "PINProtocol_String p = ''PIN protocol '' @ fmt_d p"

text \<open>
  The package's variables \<open>randRead\<close>, \<open>newECDHKey\<close> and \<open>hkdfKey\<close>.  \<open>randRead\<close> is asked for a number
  of bytes; \<open>hkdfKey\<close> is always given SHA-256.
\<close>

record 'w seams =
  sm_randRead :: "nat \<Rightarrow> 'w \<Rightarrow> (ext_error + bytes) \<times> 'w"
  sm_newECDHKey :: "'w \<Rightarrow> (ext_error + ecdh_private) \<times> 'w"
  sm_hkdfKey :: "bytes \<Rightarrow> bytes \<Rightarrow> string \<Rightarrow> nat \<Rightarrow> ext_error + bytes"

record pinKeys =
  pk_proto :: PINProtocol
  pk_aes :: bytes
  pk_hmac :: bytes

definition BlockSize :: nat where "BlockSize = 16"

section \<open>The operations\<close>

definition deriveKeys ::
    "(bytes \<Rightarrow> bytes \<Rightarrow> string \<Rightarrow> nat \<Rightarrow> ext_error + bytes) \<Rightarrow> PINProtocol \<Rightarrow> bytes \<Rightarrow> pinKeys outcome" where
  "deriveKeys hkdfKey proto secret =
     (if proto = PINProtocolOne
      then let sum = sha256 secret; k = go_copy (make_bytes (length sum)) sum
        in Inr \<lparr>pk_proto = proto, pk_aes = k, pk_hmac = k\<rparr>
      else if proto = PINProtocolTwo
      then let salt = make_bytes 32 in
        bindR (wrapExt (\<lambda>e. Pin (DerivingHMACKey e)) (hkdfKey secret salt ''CTAP2 HMAC key'' 32)) (\<lambda>hmacKey.
        bindR (wrapExt (\<lambda>e. Pin (DerivingAESKey e)) (hkdfKey secret salt ''CTAP2 AES key'' 32)) (\<lambda>aesKey.
        Inr \<lparr>pk_proto = proto, pk_aes = aesKey, pk_hmac = hmacKey\<rparr>))
      else Inl (Pin (UnknownProtocol proto)))"

text \<open>The vector \<open>encrypt\<close> uses: zeroes, or what \<open>randRead\<close> fills it with.\<close>

definition new_vector :: "'w seams \<Rightarrow> pinKeys \<Rightarrow> ('w, bytes) io" where
  "new_vector S k w =
     (let iv = make_bytes BlockSize in
      if pk_proto k = PINProtocolTwo
      then case sm_randRead S (length iv) w of
             (Inl e, w1) \<Rightarrow> Some (Inl (Pin (NoInitVector e)), w1)
           | (Inr bs, w1) \<Rightarrow> Some (Inr (go_copy iv bs), w1)
      else Some (Inr iv, w))"

definition encrypt :: "'w seams \<Rightarrow> pinKeys \<Rightarrow> bytes \<Rightarrow> ('w, bytes) io" where
  "encrypt S k plaintext =
     (if length plaintext = 0 \<or> length plaintext mod BlockSize \<noteq> 0
      then failIO (Pin (NotWholeBlocks (length plaintext)))
      else bindIO (liftIO (wrapExt (\<lambda>e. Pin (NotAnAESKey e)) (aes_NewCipher (pk_aes k)))) (\<lambda>block.
        bindIO (new_vector S k) (\<lambda>iv.
        let out = cbc_encrypt BlockSize (aes_encrypt block) iv plaintext in
        if pk_proto k = PINProtocolTwo then retIO (iv @ out) else retIO out)))"

definition decrypt :: "pinKeys \<Rightarrow> bytes \<Rightarrow> bytes outcome" where
  "decrypt k ciphertext =
     bindR (if pk_proto k = PINProtocolTwo
            then if length ciphertext < BlockSize
                 then Inl (Pin (InitVectorTooShort (length ciphertext)))
                 else bindR (slice ciphertext 0 BlockSize) (\<lambda>head.
                      bindR (slice ciphertext BlockSize (length ciphertext)) (\<lambda>rest.
                      Inr (go_copy (make_bytes BlockSize) head, rest)))
            else Inr (make_bytes BlockSize, ciphertext)) (\<lambda>(iv, ciphertext).
     if length ciphertext = 0 \<or> length ciphertext mod BlockSize \<noteq> 0
     then Inl (Pin (NotWholeBlocks (length ciphertext)))
     else bindR (wrapExt (\<lambda>e. Pin (NotAnAESKey e)) (aes_NewCipher (pk_aes k))) (\<lambda>block.
       Inr (cbc_decrypt BlockSize (aes_decrypt block) iv ciphertext)))"

text \<open>The slice \<open>sum[:16]\<close> cannot be out of range: an HMAC is 32 bytes.\<close>

definition authenticate :: "pinKeys \<Rightarrow> bytes \<Rightarrow> bytes" where
  "authenticate k data =
     (let sum = hmac_sha256 (pk_hmac k) data
      in if pk_proto k = PINProtocolOne then take 16 sum else sum)"

definition pinHash :: "'w seams \<Rightarrow> pinKeys \<Rightarrow> string \<Rightarrow> ('w, bytes) io" where
  "pinHash S k pin =
     (if pin = [] then failIO (Pin EmptyPIN)
      else let sum = sha256 (bytes_of_string pin) in encrypt S k (take 16 sum))"

definition agree ::
    "'w seams \<Rightarrow> PINProtocol \<Rightarrow> ecdh_public \<Rightarrow> ('w, (int \<Rightarrow> gval option) \<times> pinKeys) io" where
  "agree S proto authenticator w =
     (case sm_newECDHKey S w of
        (Inl e, w1) \<Rightarrow> Some (Inl (Pin (NoKeyToAgreeWith e)), w1)
      | (Inr priv, w1) \<Rightarrow>
         bindIO (liftIO (ecdhToCOSE (priv_PublicKey priv))) (\<lambda>own.
         bindIO (liftIO (wrapExt (\<lambda>e. Pin (WillNotAgree e)) (priv_ECDH priv authenticator))) (\<lambda>secret.
         bindIO (liftIO (deriveKeys (sm_hkdfKey S) proto secret)) (\<lambda>keys.
         retIO (own, keys)))) w1)"

section \<open>Sealing under a known vector\<close>

text \<open>What \<open>encrypt\<close> computes once it has its vector, and the keys each protocol derives.\<close>

definition seal :: "pinKeys \<Rightarrow> bytes \<Rightarrow> bytes \<Rightarrow> bytes" where
  "seal k iv p =
     (if pk_proto k = 2 then iv @ cbc_encrypt 16 (aes_encrypt (pk_aes k)) iv p
      else cbc_encrypt 16 (aes_encrypt (pk_aes k)) (make_bytes 16) p)"

definition usable :: "pinKeys \<Rightarrow> bool" where
  "usable k \<longleftrightarrow> aes_key_size_ok (length (pk_aes k))"

definition one_keys :: "bytes \<Rightarrow> pinKeys" where
  "one_keys secret = \<lparr>pk_proto = 1, pk_aes = sha256 secret, pk_hmac = sha256 secret\<rparr>"

definition two_keys :: "bytes \<Rightarrow> pinKeys" where
  "two_keys secret = \<lparr>pk_proto = 2,
     pk_aes = hkdf sha256 64 32 secret (make_bytes 32) (bytes_of_string ''CTAP2 AES key'') 32,
     pk_hmac = hkdf sha256 64 32 secret (make_bytes 32) (bytes_of_string ''CTAP2 HMAC key'') 32\<rparr>"

lemma deriveKeys_default:
  "deriveKeys hkdf_Key proto secret =
     (if proto = 1 then Inr (one_keys secret) else if proto = 2 then Inr (two_keys secret)
      else Inl (Pin (UnknownProtocol proto)))"
  by (simp add: deriveKeys_def protocol_defs one_keys_def two_keys_def hkdf_Key_def Let_def)

lemma derived_proto [simp]: "pk_proto (one_keys secret) = 1" "pk_proto (two_keys secret) = 2"
  by (simp_all add: one_keys_def two_keys_def)

lemma derived_usable: "usable (one_keys secret)" "usable (two_keys secret)"
  by (simp_all add: usable_def aes_key_size_ok_def one_keys_def two_keys_def sha256.length_hkdf)

lemma encrypt_eq:
  "encrypt S k p w =
     (if p = [] \<or> \<not> 16 dvd length p then Some (Inl (Pin (NotWholeBlocks (length p))), w)
      else if \<not> usable k then Some (Inl (Pin (NotAnAESKey ''crypto/aes: invalid key size'')), w)
      else if pk_proto k = 2 then (case sm_randRead S 16 w of
          (Inl e, w1) \<Rightarrow> Some (Inl (Pin (NoInitVector e)), w1)
        | (Inr bs, w1) \<Rightarrow> Some (Inr (seal k (go_copy (make_bytes 16) bs) p), w1))
      else Some (Inr (seal k (make_bytes 16) p), w))"
  by (auto simp: encrypt_def BlockSize_def dvd_eq_mod_eq_0 usable_def aes_NewCipher_def new_vector_def
      protocol_defs seal_def bindIO_def Let_def split: prod.split sum.split)

lemma decrypt_eq:
  "decrypt k c =
     (if pk_proto k = 2 \<and> length c < 16 then Inl (Pin (InitVectorTooShort (length c)))
      else let iv = (if pk_proto k = 2 then take 16 c else make_bytes 16);
               body = (if pk_proto k = 2 then drop 16 c else c)
        in if body = [] \<or> \<not> 16 dvd length body then Inl (Pin (NotWholeBlocks (length body)))
           else if \<not> usable k then Inl (Pin (NotAnAESKey ''crypto/aes: invalid key size''))
           else Inr (cbc_decrypt 16 (aes_decrypt (pk_aes k)) iv body))"
  by (auto simp: decrypt_def BlockSize_def dvd_eq_mod_eq_0 usable_def aes_NewCipher_def protocol_defs Let_def)

lemma length_seal:
  assumes "length iv = 16" and "16 dvd length p"
  shows "length (seal k iv p) = length p + (if pk_proto k = 2 then 16 else 0)"
  using assms by (auto simp: seal_def aes.length_cbc_encrypt elim!: dvdE)

lemma decrypt_seal:
  assumes "usable k" and "length iv = 16" and "p \<noteq> []" and "16 dvd length p"
  shows "decrypt k (seal k iv p) = Inr p"
proof -
  from assms(4) obtain m where m: "length p = 16 * m" by (elim dvdE)
  have body: "cbc_encrypt 16 E v p \<noteq> [] \<and> 16 dvd length (cbc_encrypt 16 E v p)"
    if "length v = 16" and "E = aes_encrypt (pk_aes k)" for E v
  proof -
    have "length (cbc_encrypt 16 E v p) = length p"
      using that m aes.length_cbc_encrypt [of v p m] by simp
    with assms(3,4) show ?thesis by (metis length_0_conv)
  qed
  show ?thesis
  proof (cases "pk_proto k = 2")
    case True
    then show ?thesis
      using assms(1,2) body [of iv] aes.cbc_decrypt_encrypt [of iv p m "pk_aes k"] m
      by (simp add: decrypt_eq seal_def Let_def)
  next
    case False
    then show ?thesis
      using assms(1) body [of "make_bytes 16"] aes.cbc_decrypt_encrypt [of "make_bytes 16" p m "pk_aes k"] m
      by (simp add: decrypt_eq seal_def Let_def)
  qed
qed

lemma length_authenticate: "length (authenticate k data) = (if pk_proto k = 1 then 16 else 32)"
  by (simp add: authenticate_def protocol_defs Let_def)

lemma deriveKeys_Inr:
  "deriveKeys h proto secret = Inr keys \<Longrightarrow> pk_proto keys = proto \<and> (proto = 1 \<or> proto = 2)"
  by (auto simp: deriveKeys_def go_bind protocol_defs Let_def split: if_splits)

lemma agree_eq_Inr:
  "agree S proto pub w = Some (Inr (own, keys), w1) \<longleftrightarrow> (\<exists>d secret. sm_newECDHKey S w = (Inr d, w1) \<and>
     ecdhToCOSE (priv_PublicKey d) = Inr own \<and> priv_ECDH d pub = Inr secret \<and>
     deriveKeys (sm_hkdfKey S) proto secret = Inr keys)"
  by (auto simp: agree_def go_bind liftIO_def retIO_def split: prod.split sum.split) 

lemma pinHash_eq_Inr:
  assumes "pinHash S keys pin w = Some (Inr h, w1)"
  shows "pin \<noteq> [] \<and> decrypt keys h = Inr (take 16 (sha256 (bytes_of_string pin)))"
proof -
  have len: "length (take 16 (sha256 (bytes_of_string pin))) = 16" by simp
  then have "take 16 (sha256 (bytes_of_string pin)) \<noteq> []" by (metis length_0_conv zero_neq_numeral)
  with assms len show ?thesis
    by (auto simp: pinHash_def encrypt_eq decrypt_seal Let_def split: if_splits prod.splits sum.splits)
qed

section \<open>What a PIN protocol promises\<close>

locale pin_protocol =
  fixes put :: "bytes \<Rightarrow> bytes \<Rightarrow> bytes"
    and get :: "bytes \<Rightarrow> bytes outcome"
    and tag :: "bytes \<Rightarrow> bytes"
    and overhead taglen :: nat
  assumes get_put: "length iv = 16 \<Longrightarrow> p \<noteq> [] \<Longrightarrow> 16 dvd length p \<Longrightarrow> get (put iv p) = Inr p"
    and length_put: "length iv = 16 \<Longrightarrow> 16 dvd length p \<Longrightarrow> length (put iv p) = length p + overhead"
    and length_tag: "length (tag data) = taglen"
begin

text \<open>Nothing about the plaintext but its length can make the sealing ambiguous.\<close>

lemma put_inject:
  "length iv = 16 \<Longrightarrow> length iv' = 16 \<Longrightarrow> p \<noteq> [] \<Longrightarrow> q \<noteq> [] \<Longrightarrow>
     16 dvd length p \<Longrightarrow> 16 dvd length q \<Longrightarrow> put iv p = put iv' q \<Longrightarrow> p = q"
  by (metis get_put sum.inject(2))

lemma tag_distinguishes_length: "length (tag x) = length (tag y)"
  by (simp add: length_tag)

end

interpretation one: pin_protocol "seal (one_keys secret)" "decrypt (one_keys secret)"
    "authenticate (one_keys secret)" 0 16
  by unfold_locales
     (simp_all add: decrypt_seal derived_usable length_seal length_authenticate)

interpretation two: pin_protocol "seal (two_keys secret)" "decrypt (two_keys secret)"
    "authenticate (two_keys secret)" 16 32
  by unfold_locales
     (simp_all add: decrypt_seal derived_usable length_seal length_authenticate)

section \<open>Properties\<close>

text \<open>The key whose scalar is one: its public key is the generator.\<close>

definition sample_private :: ecdh_private where
  "sample_private = p256_private 1"

lemma sample_private_G [simp]:
  "priv_PublicKey sample_private = G_public" "priv_ECDH sample_private G_public = Inr Gx_bytes"
proof -
  show "priv_PublicKey sample_private = G_public"
    by (simp add: sample_private_def p256_private_def G_public_def Gx_bytes_def Gy_bytes_def p256_G_def)
  have "decode_point (pub_Bytes G_public) = Affine p256_Gx p256_Gy" by (simp add: G_public_def)
  then show "priv_ECDH sample_private G_public = Inr Gx_bytes"
    by (simp add: sample_private_def p256_private_def p256_ECDH_def Gx_bytes_def G_public_def del: decode_point.simps)
qed

text \<open>A source of entropy that gives ones and a generator of one fixed key, to try things on.\<close>

definition fixed_seams :: "'w seams" where
  "fixed_seams =
     \<lparr>sm_randRead = (\<lambda>n w. (Inr (replicate n 1), w)), sm_newECDHKey = (\<lambda>w. (Inr sample_private, w)),
      sm_hkdfKey = hkdf_Key\<rparr>"

lemma fixed_seams_simps [simp]:
  "sm_randRead fixed_seams n w = (Inr (replicate n 1), w)"
  "sm_newECDHKey fixed_seams w = (Inr sample_private, w)"
  "sm_hkdfKey fixed_seams = hkdf_Key"
  by (simp_all add: fixed_seams_def)

lemma encrypt_Inr:
  assumes "encrypt S k p w = Some (Inr c, w1)"
  shows "p \<noteq> [] \<and> 16 dvd length p \<and> length c = length p + (if pk_proto k = 2 then 16 else 0) \<and>
    decrypt k c = Inr p"
  using assms
  by (auto simp: encrypt_eq decrypt_seal length_seal split: if_splits prod.splits sum.splits)

text \<open>
  C11. Whatever \<open>encrypt\<close> returns, \<open>decrypt\<close> under the same keys turns back into the plaintext, for
  either protocol, any key AES takes and any vector; the plaintext was a positive number of whole
  blocks, and protocol two adds sixteen bytes to it and protocol one none.
\<close>

theorem decrypt_undoes_encrypt:
  assumes "encrypt S k p w = Some (Inr c, w1)"
  shows "p \<noteq> [] \<and> 16 dvd length p \<and> length c = length p + (if pk_proto k = 2 then 16 else 0) \<and>
    decrypt k c = Inr p"
  by (rule encrypt_Inr [OF assms])

theorem decrypt_undoes_encrypt_witness:
  "\<exists>c. encrypt fixed_seams (two_keys [1, 2, 3]) (replicate 32 5) () = Some (Inr c, ()) \<and>
     length c = 48 \<and> decrypt (two_keys [1, 2, 3]) c = Inr (replicate 32 5)"
proof -
  define c where "c = seal (two_keys [1, 2, 3]) (replicate 16 1) (replicate 32 5)"
  have "encrypt fixed_seams (two_keys [1, 2, 3]) (replicate 32 5) () = Some (Inr c, ())"
    by (simp add: encrypt_eq derived_usable c_def)
  with decrypt_undoes_encrypt [OF this] show ?thesis by (intro exI [of _ c]) simp
qed

text \<open>
  \<open>decrypt\<close> never panics, and succeeds on exactly the ciphertexts that are a positive number of
  whole blocks behind the vector protocol two puts in front, under a key of an AES size; the
  plaintext is as long as the blocks.
\<close>

lemma decrypt_accepts:
  "\<not> panics (decrypt k c) \<and>
   ((\<exists>p. decrypt k c = Inr p) \<longleftrightarrow> usable k \<and> (\<exists>m. 0 < m \<and>
      length c = 16 * m + (if pk_proto k = 2 then 16 else 0)))"
proof
  show "\<not> panics (decrypt k c)" by (simp add: decrypt_eq Let_def)
  show "(\<exists>p. decrypt k c = Inr p) \<longleftrightarrow> usable k \<and> (\<exists>m. 0 < m \<and>
      length c = 16 * m + (if pk_proto k = 2 then 16 else 0))"
  proof (cases "pk_proto k = 2")
    case True
    have "16 \<le> length c \<and> drop 16 c \<noteq> [] \<and> 16 dvd length c - 16 \<longleftrightarrow> (\<exists>m. 0 < m \<and> length c = 16 * m + 16)"
    proof
      assume "16 \<le> length c \<and> drop 16 c \<noteq> [] \<and> 16 dvd length c - 16"
      then show "\<exists>m. 0 < m \<and> length c = 16 * m + 16"
        by (intro exI [of _ "(length c - 16) div 16"]) auto
    qed auto
    moreover have "(\<exists>p. decrypt k c = Inr p) \<longleftrightarrow>
        usable k \<and> 16 \<le> length c \<and> drop 16 c \<noteq> [] \<and> 16 dvd length c - 16"
      using True by (auto simp add: decrypt_eq Let_def)
    ultimately show ?thesis using True by simp
  next
    case False
    have "c \<noteq> [] \<and> 16 dvd length c \<longleftrightarrow> (\<exists>m. 0 < m \<and> length c = 16 * m)"
    proof
      assume c: "c \<noteq> [] \<and> 16 dvd length c"
      then obtain m where "length c = 16 * m" unfolding dvd_def by blast
      moreover from this c have "0 < m" by (cases m) simp_all
      ultimately show "\<exists>m. 0 < m \<and> length c = 16 * m" by blast
    next
      assume "\<exists>m. 0 < m \<and> length c = 16 * m"
      then obtain m where "0 < m" and "length c = 16 * m" by blast
      then show "c \<noteq> [] \<and> 16 dvd length c" by (cases c) simp_all
    qed
    moreover have "(\<exists>p. decrypt k c = Inr p) \<longleftrightarrow> usable k \<and> c \<noteq> [] \<and> 16 dvd length c"
      using False by (auto simp add: decrypt_eq Let_def)
    ultimately show ?thesis using False by simp
  qed
qed

text \<open>
  With the library's HKDF, \<open>deriveKeys\<close> knows protocols one and two and no other, never fails
  on them, and gives keys that \<open>encrypt\<close> can use; protocol one's two keys are one and the same, and
  a tag is 16 bytes under it and 32 under protocol two.
\<close>

lemma deriveKeys_protocols:
  "(case deriveKeys hkdf_Key proto secret of
      Inl e \<Rightarrow> proto \<notin> {1, 2} \<and> e = Pin (UnknownProtocol proto)
    | Inr k \<Rightarrow> proto \<in> {1, 2} \<and> pk_proto k = proto \<and> length (pk_aes k) = 32 \<and> length (pk_hmac k) = 32 \<and>
        pk_aes k = (if proto = 1 then sha256 secret
          else hkdf sha256 64 32 secret (make_bytes 32) (bytes_of_string ''CTAP2 AES key'') 32) \<and>
        pk_hmac k = (if proto = 1 then sha256 secret
          else hkdf sha256 64 32 secret (make_bytes 32) (bytes_of_string ''CTAP2 HMAC key'') 32) \<and>
        length (authenticate k data) = (if proto = 1 then 16 else 32))"
  by (simp add: deriveKeys_default length_authenticate) 
     (auto simp: one_keys_def two_keys_def sha256.length_hkdf)

text \<open>
  After \<open>agree\<close> the platform holds the keys the authenticator derives for itself, from its own
  private key and the public key it is sent.  The hypothesis on the two private keys is the law of
  key agreement: each makes the same secret of the other's public key.
\<close>

lemma agree_shares_keys:
  assumes law: "priv_ECDH d (priv_PublicKey a) = priv_ECDH a (priv_PublicKey d)"
    and d: "sm_newECDHKey S w = (Inr d, w1)"
    and ok: "agree S proto (priv_PublicKey a) w = Some (Inr (own, keys), w2)"
  shows "w2 = w1 \<and> ecdhToCOSE (priv_PublicKey d) = Inr own \<and> pk_proto keys = proto \<and>
    (\<exists>secret. priv_ECDH a (priv_PublicKey d) = Inr secret \<and> deriveKeys (sm_hkdfKey S) proto secret = Inr keys)"
  using assms deriveKeys_Inr by (auto simp: agree_eq_Inr)

end
