(* ===== verification/Framing.thy ===== *)
theory Framing
  imports Outcome
begin

text \<open>
  The CTAPHID framing of \<open>fido.go\<close>: the constants, \<open>Split\<close>, which cuts a message into 64-byte
  reports, and the \<open>Reassembler\<close>, which puts one back together from the reports a key sends.
  Definitions come first, in the order of the file; then the shape of what \<open>Split\<close> makes, the
  reassembler's invariant and its abstract specification, and the contract between the two,
  which the locale \<open>framing\<close> states for the clients in \<open>Device\<close>.
\<close>

section \<open>Constants\<close>

definition ReportSize :: nat where "ReportSize = 64"

definition BroadcastChannel :: u32 where "BroadcastChannel = 0xFFFFFFFF"

definition CmdPing :: byte where "CmdPing = 0x01"
definition CmdMsg :: byte where "CmdMsg = 0x03"
definition CmdLock :: byte where "CmdLock = 0x04"
definition CmdInit :: byte where "CmdInit = 0x06"
definition CmdWink :: byte where "CmdWink = 0x08"
definition CmdCBOR :: byte where "CmdCBOR = 0x10"
definition CmdCancel :: byte where "CmdCancel = 0x11"
definition CmdKeepalive :: byte where "CmdKeepalive = 0x3B"
definition CmdError :: byte where "CmdError = 0x3F"

lemmas cmd_defs = CmdPing_def CmdMsg_def CmdLock_def CmdInit_def CmdWink_def CmdCBOR_def
  CmdCancel_def CmdKeepalive_def CmdError_def

definition initPayload :: nat where "initPayload = ReportSize - 7"
definition contPayload :: nat where "contPayload = ReportSize - 5"
definition MaxContinuations :: nat where "MaxContinuations = 128"

definition MaxMessage :: nat where
  "MaxMessage = initPayload + MaxContinuations * contPayload"

lemma sizes [wire_simps]:
  "ReportSize = 64" "initPayload = 57" "contPayload = 59"
  "MaxContinuations = 128" "MaxMessage = 7609"
  by (simp_all add: ReportSize_def initPayload_def contPayload_def MaxContinuations_def
        MaxMessage_def)

section \<open>Split\<close>

text \<open>The initialisation packet: channel, command with its high bit, length, first bytes.\<close>

definition init_packet :: "u32 \<Rightarrow> byte \<Rightarrow> bytes \<Rightarrow> bytes" where
  "init_packet channel cmd data =
     (let first = make_bytes ReportSize;
          first = copy_at 0 first (PutUint32 channel);
          first = first[4 := 0x80 OR cmd];
          first = copy_at 5 first (PutUint16 (of_nat (length data)))
      in copy_at 7 first data)"

text \<open>A continuation packet: channel, \<open>byte(seq)\<close>, the next bytes.\<close>

definition cont_packet :: "u32 \<Rightarrow> nat \<Rightarrow> bytes \<Rightarrow> bytes" where
  "cont_packet channel seq rest =
     (let p = make_bytes ReportSize;
          p = copy_at 0 p (PutUint32 channel);
          p = p[4 := of_nat seq]
      in copy_at 5 p rest)"

text \<open>\<open>for seq := 0; n < len(data); seq++ \{ \<dots> \}\<close>\<close>

function split_loop :: "u32 \<Rightarrow> bytes \<Rightarrow> nat \<Rightarrow> nat \<Rightarrow> bytes list \<Rightarrow> bytes list" where
  "split_loop channel data seq n out =
     (if n < length data
      then split_loop channel data (Suc seq)
             (n + copy_count 5 (make_bytes ReportSize) (drop n data))
             (out @ [cont_packet channel seq (drop n data)])
      else out)"
  by pat_completeness auto
termination
  by (relation "measure (\<lambda>(channel, data, seq, n, out). length data - n)")
     (auto simp: copy_count_def wire_simps)

declare split_loop.simps [simp del]

definition Split :: "u32 \<Rightarrow> byte \<Rightarrow> bytes \<Rightarrow> bytes list outcome" where
  "Split channel cmd data =
     (if length data > MaxMessage then Inl (Wire ErrTooLong)
      else Inr (split_loop channel data 0 (copy_count 7 (make_bytes ReportSize) data)
                  [init_packet channel cmd data]))"

section \<open>Message\<close>

record Message =
  m_channel :: u32
  m_cmd :: byte
  m_data :: bytes

definition zero_message :: Message where
  "zero_message = \<lparr>m_channel = 0, m_cmd = 0, m_data = []\<rparr>"

definition IsError :: "Message \<Rightarrow> bool" where
  "IsError m \<longleftrightarrow> m_cmd m = CmdError"

section \<open>Reassembler\<close>

record reassembler =
  rc_channel :: u32
  rc_msg :: Message
  rc_want :: nat
  rc_seq :: nat
  rc_started :: bool

definition NewReassembler :: "u32 \<Rightarrow> reassembler" where
  "NewReassembler channel =
     \<lparr>rc_channel = channel, rc_msg = zero_message, rc_want = 0, rc_seq = 0, rc_started = False\<rparr>"

text \<open>\<open>finish\<close> trims the padding once enough bytes have arrived.\<close>

definition finish :: "reassembler \<Rightarrow> Message option outcome \<times> reassembler" where
  "finish r =
     (if length (m_data (rc_msg r)) < rc_want r then (Inr None, r)
      else readS (slice (m_data (rc_msg r)) 0 (rc_want r)) r (\<lambda>d.
        (Inr (Some ((rc_msg r)\<lparr>m_data := d\<rparr>)), r\<lparr>rc_started := False\<rparr>)))"

text \<open>
  \<open>Feed\<close> answers \<open>Inr None\<close> for \<open>done = false\<close> and \<open>Inr (Some m)\<close> for \<open>done = true\<close>.
\<close>

definition Feed :: "reassembler \<Rightarrow> bytes \<Rightarrow> Message option outcome \<times> reassembler" where
  "Feed r report =
     (if length report < 5 then (Inl (Wire ErrShortPacket), r)
      else readS (bindR (slice report 0 4) Uint32) r (\<lambda>ch.
        if ch \<noteq> rc_channel r then (Inl (Wire ErrWrongChannel), r)
        else readS (index report 4) r (\<lambda>b.
          if b AND 0x80 \<noteq> 0 then
            if length report < 7 then (Inl (Wire ErrShortPacket), r)
            else readS (bindR (slice report 5 7) Uint16) r (\<lambda>len.
                 readS (slice report 7 (length report)) r (\<lambda>payload.
                   finish (r\<lparr>rc_msg := \<lparr>m_channel = ch, m_cmd = b AND NOT 0x80, m_data = payload\<rparr>,
                             rc_want := unat len, rc_seq := 0, rc_started := True\<rparr>)))
          else if \<not> rc_started r then (Inl (Wire ErrOutOfOrder), r)
          else if unat b \<noteq> rc_seq r then (Inl (Wire ErrOutOfOrder), r)
          else readS (slice report 5 (length report)) r (\<lambda>payload.
                 finish (r\<lparr>rc_seq := Suc (rc_seq r),
                           rc_msg := (rc_msg r)\<lparr>m_data := m_data (rc_msg r) @ payload\<rparr>\<rparr>)))))"

section \<open>What Split makes\<close>

lemma report_zeroes:
  "make_bytes 64 = [0, 0, 0, 0, 0, 0, 0] @ make_bytes 57"
  "make_bytes 64 = [0, 0, 0, 0, 0] @ make_bytes 59"
  by (simp_all add: numeral_eq_Suc)

lemma update_4: "(a # b # c # d # e # xs)[4 := v] = a # b # c # d # v # xs"
  by (simp add: eval_nat_numeral)

lemma drop_7: "drop (7 + n) (a # b # c # d # e # f # g # xs) = drop n xs"
  by (simp add: eval_nat_numeral)

lemma init_packet_eq:
  "init_packet channel cmd data =
     PutUint32 channel @ [0x80 OR cmd] @ PutUint16 (of_nat (length data)) @
     take 57 data @ make_bytes (57 - length data)"
  unfolding init_packet_def copy_at_def wire_simps report_zeroes(1) PutUint32_def PutUint16_def
  by (simp add: go_copy_def update_4 drop_7)

lemma cont_packet_eq:
  "cont_packet channel seq rest =
     PutUint32 channel @ [of_nat seq] @ take 59 rest @ make_bytes (59 - length rest)"
  unfolding cont_packet_def copy_at_def wire_simps report_zeroes(2) PutUint32_def
  by (simp add: go_copy_def update_4)

text \<open>How many continuations \<open>n\<close> bytes need, rounding up.\<close>

lemma ceil59_step:
  assumes "0 < n"
  shows "(n + 58) div 59 = Suc ((n - 59 + 58) div (59::nat))"
proof (cases "n \<le> 59")
  case True
  with assms have "(n + 58) div 59 = 1"
    by (intro div_nat_eqI) auto
  with True show ?thesis by simp
next
  case False
  then show ?thesis by (simp add: le_div_geq)
qed

text \<open>The continuations that carry \<open>rest\<close>, numbered from \<open>seq\<close>: the loop without its counter
  and accumulator.\<close>

function continuations :: "u32 \<Rightarrow> nat \<Rightarrow> bytes \<Rightarrow> bytes list" where
  "continuations channel seq rest =
     (if rest = [] then []
      else cont_packet channel seq rest # continuations channel (Suc seq) (drop 59 rest))"
  by pat_completeness auto
termination
  by (relation "measure (\<lambda>(channel, seq, rest). length rest)") auto

declare continuations.simps [simp del]

lemma continuations_Nil [simp]: "continuations channel seq [] = []"
  by (simp add: continuations.simps)

lemma continuations_step:
  "rest \<noteq> [] \<Longrightarrow> continuations channel seq rest =
     cont_packet channel seq rest # continuations channel (Suc seq) (drop 59 rest)"
  by (simp add: continuations.simps [of channel seq rest])

lemma split_loop_eq:
  "split_loop channel data seq n out = out @ continuations channel seq (drop n data)"
proof (induction channel data seq n out rule: split_loop.induct)
  case (1 channel data seq n out)
  show ?case
  proof (cases "n < length data")
    case True
    have "drop (n + copy_count 5 (make_bytes ReportSize) (drop n data)) data
          = drop 59 (drop n data)"
      by (cases "length data \<le> n + 59") (auto simp: copy_count_def wire_simps add.commute)
    with True "1.IH" [OF True] show ?thesis
      by (simp add: split_loop.simps [of channel data seq n out] continuations_step)
  next
    case False
    then show ?thesis by (simp add: split_loop.simps [of channel data seq n out])
  qed
qed

definition packets :: "u32 \<Rightarrow> byte \<Rightarrow> bytes \<Rightarrow> bytes list" where
  "packets channel cmd data = init_packet channel cmd data # continuations channel 0 (drop 57 data)"

lemma Split_eq:
  "Split channel cmd data =
     (if length data > MaxMessage then Inl (Wire ErrTooLong) else Inr (packets channel cmd data))"
  by (cases "length data \<le> 57")
     (simp_all add: Split_def split_loop_eq packets_def copy_count_def wire_simps)

lemma Split_Inr: "Split channel cmd data = Inr ps \<longleftrightarrow>
    length data \<le> MaxMessage \<and> ps = packets channel cmd data"
  by (auto simp: Split_eq)

lemma Split_Inl: "Split channel cmd data = Inl e \<longleftrightarrow>
    length data > MaxMessage \<and> e = Wire ErrTooLong"
  by (auto simp: Split_eq)

text \<open>Facts about every continuation, by index.\<close>

lemma length_continuations: "length (continuations channel seq rest) = (length rest + 58) div 59"
proof (induction channel seq rest rule: continuations.induct)
  case (1 channel seq rest)
  then show ?case
    by (cases "rest = []") (simp_all add: continuations_step ceil59_step [of "length rest"])
qed

lemma continuations_nth:
  "i < length (continuations channel seq rest) \<Longrightarrow>
     continuations channel seq rest ! i = cont_packet channel (seq + i) (drop (59 * i) rest)"
proof (induction channel seq rest arbitrary: i rule: continuations.induct)
  case (1 channel seq rest)
  then have "rest \<noteq> []" by auto
  with "1.IH" [of "i - 1"] "1.prems" show ?case
    by (cases i) (simp_all add: continuations_step algebra_simps)
qed

lemma length_init_packet [simp]: "length (init_packet channel cmd data) = 64"
  by (simp add: init_packet_eq min_def)

lemma length_cont_packet [simp]: "length (cont_packet channel seq rest) = 64"
  by (simp add: cont_packet_eq min_def)

lemma length_packets: "length (packets channel cmd data) = Suc ((length data - 57 + 58) div 59)"
  by (simp add: packets_def length_continuations)

lemma length_packets_le:
  "length data \<le> MaxMessage \<Longrightarrow> length (packets channel cmd data) \<le> Suc MaxContinuations"
  by (simp add: length_packets wire_simps)

lemma packets_nth_Suc:
  "Suc i < length (packets channel cmd data) \<Longrightarrow>
     packets channel cmd data ! Suc i = cont_packet channel i (drop (57 + 59 * i) data)"
  by (simp add: packets_def continuations_nth add.commute)

lemma continuations_report_sized: "p \<in> set (continuations channel seq rest) \<Longrightarrow> length p = 64"
  by (auto simp: in_set_conv_nth continuations_nth)

lemma continuations_channel:
  "p \<in> set (continuations channel seq rest) \<Longrightarrow> take 4 p = PutUint32 channel"
  by (auto simp: in_set_conv_nth continuations_nth cont_packet_eq)

lemma packets_report_sized: "p \<in> set (packets channel cmd data) \<Longrightarrow> length p = 64"
  by (auto simp: packets_def continuations_report_sized)

lemma packets_channel: "p \<in> set (packets channel cmd data) \<Longrightarrow> take 4 p = PutUint32 channel"
  by (auto simp: packets_def continuations_channel init_packet_eq)

text \<open>The payload bytes of the reports, in order, are the message and then zeroes.\<close>

lemma continuations_payload:
  "concat (map (drop 5) (continuations channel seq rest)) =
     rest @ make_bytes (59 * ((length rest + 58) div 59) - length rest)"
proof (induction channel seq rest rule: continuations.induct)
  case (1 channel seq rest)
  show ?case
  proof (cases "rest = []")
    case False
    then have "59 * ((length rest + 58) div 59) - length rest = (59 - length rest) +
        (59 * ((length (drop 59 rest) + 58) div 59) - length (drop 59 rest))"
      by (simp add: ceil59_step [of "length rest"])
    with False "1.IH" show ?thesis
      by (cases "length rest \<le> 59")
         (simp_all add: continuations_step cont_packet_eq replicate_add flip: append_assoc)
  qed simp
qed

lemma packets_payload:
  "\<exists>pad. drop 7 (hd (packets channel cmd data)) @
      concat (map (drop 5) (tl (packets channel cmd data))) = data @ make_bytes pad"
proof (cases "length data \<le> 57")
  case True
  then show ?thesis
    by (intro exI [of _ "57 - length data"]) (simp add: packets_def init_packet_eq)
next
  case False
  then show ?thesis
    unfolding packets_def list.sel continuations_payload
    by (intro exI) (simp add: init_packet_eq)
qed

section \<open>What Feed reads in a report\<close>

text \<open>
  A report as a reassembler of channel \<open>ch\<close> sees it: too short, another channel's, the start
  of a message (command, announced length, first bytes) or a continuation (number, bytes).
\<close>

datatype packet = Malformed | Foreign | Start byte nat bytes | Cont nat bytes

definition view :: "u32 \<Rightarrow> bytes \<Rightarrow> packet" where
  "view ch r =
     (if length r < 5 then Malformed
      else if get32 (take 4 r) \<noteq> ch then Foreign
      else if bit (r ! 4) 7 then
        if length r < 7 then Malformed
        else Start (r ! 4 AND NOT 0x80) (unat (get16 (take 2 (drop 5 r)))) (drop 7 r)
      else Cont (unat (r ! 4)) (drop 5 r))"

lemma and_0x80: "(b AND 0x80 = (0 :: byte)) \<longleftrightarrow> \<not> bit b 7"
  using and_exp_eq_0_iff_not_bit [of b 7] by simp

lemma Feed_view:
  "Feed r report = (case view (rc_channel r) report of
     Malformed \<Rightarrow> (Inl (Wire ErrShortPacket), r)
   | Foreign \<Rightarrow> (Inl (Wire ErrWrongChannel), r)
   | Start cmd n p \<Rightarrow>
       finish (r\<lparr>rc_msg := \<lparr>m_channel = rc_channel r, m_cmd = cmd, m_data = p\<rparr>,
                 rc_want := n, rc_seq := 0, rc_started := True\<rparr>)
   | Cont k p \<Rightarrow>
       if rc_started r \<and> k = rc_seq r
       then finish (r\<lparr>rc_seq := Suc (rc_seq r),
                      rc_msg := (rc_msg r)\<lparr>m_data := m_data (rc_msg r) @ p\<rparr>\<rparr>)
       else (Inl (Wire ErrOutOfOrder), r))"
  by (simp add: Feed_def view_def and_0x80)

lemma finish_eq:
  "finish r =
     (if length (m_data (rc_msg r)) < rc_want r then (Inr None, r)
      else (Inr (Some ((rc_msg r)\<lparr>m_data := take (rc_want r) (m_data (rc_msg r))\<rparr>)),
            r\<lparr>rc_started := False\<rparr>))"
  by (simp add: finish_def)

lemma finish_channel [simp]: "rc_channel (snd (finish r)) = rc_channel r"
  by (simp add: finish_eq)

lemma Feed_channel [simp]: "rc_channel (snd (Feed r report)) = rc_channel r"
  by (simp add: Feed_view split: packet.split)

lemma Feed_error_cases:
  "fst (Feed r report) = Inl e \<Longrightarrow>
     e \<in> {Wire ErrShortPacket, Wire ErrWrongChannel, Wire ErrOutOfOrder}"
  by (auto simp: Feed_view finish_eq split: packet.splits if_splits)

lemma view_foreign: "view ch r = Foreign \<longleftrightarrow> 5 \<le> length r \<and> take 4 r \<noteq> PutUint32 ch"
  using be32.get_eq_iff [of "take 4 r" ch] by (auto simp: view_def)

lemma view_Cont_bound: "view ch r = Cont k p \<Longrightarrow> k < 128"
proof -
  assume "view ch r = Cont k p"
  then have "\<not> bit (r ! 4) 7" and k: "k = unat (r ! 4)"
    by (auto simp: view_def split: if_splits)
  then have "take_bit 7 (r ! 4) = r ! 4"
    by (intro bit_word_eqI) (auto simp: bit_simps less_Suc_eq numeral_eq_Suc)
  then have "unat (r ! 4) = take_bit 7 (unat (r ! 4))"
    by (metis unsigned_take_bit_eq)
  with k show ?thesis
    using take_bit_nat_less_exp [of 7 "unat (r ! 4)"] by simp
qed

section \<open>The reassembler as a protocol machine\<close>

text \<open>
  The specification of a reassembler: idle, or collecting a message of which it keeps the
  command, the announced length, the next sequence number and the bytes so far.  It has no
  stale fields: what the code leaves in \<open>msg\<close>, \<open>want\<close> and \<open>seq\<close> after a message is not
  part of the state.
\<close>

datatype assembly = Idle | Collecting byte nat nat bytes

definition settle :: "byte \<Rightarrow> nat \<Rightarrow> nat \<Rightarrow> bytes \<Rightarrow> (byte \<times> bytes) option outcome \<times> assembly" where
  "settle cmd n seq d =
     (if length d < n then (Inr None, Collecting cmd n seq d) else (Inr (Some (cmd, take n d)), Idle))"

fun assemble :: "assembly \<Rightarrow> packet \<Rightarrow> (byte \<times> bytes) option outcome \<times> assembly" where
  "assemble a Malformed = (Inl (Wire ErrShortPacket), a)"
| "assemble a Foreign = (Inl (Wire ErrWrongChannel), a)"
| "assemble a (Start cmd n p) = settle cmd n 0 p"
| "assemble (Collecting cmd n seq d) (Cont k p) =
     (if k = seq then settle cmd n (Suc seq) (d @ p)
      else (Inl (Wire ErrOutOfOrder), Collecting cmd n seq d))"
| "assemble Idle (Cont k p) = (Inl (Wire ErrOutOfOrder), Idle)"

definition abs_rc :: "reassembler \<Rightarrow> assembly" where
  "abs_rc r = (if rc_started r
     then Collecting (m_cmd (rc_msg r)) (rc_want r) (rc_seq r) (m_data (rc_msg r)) else Idle)"

definition abs_result :: "Message option outcome \<Rightarrow> (byte \<times> bytes) option outcome" where
  "abs_result = map_sum id (map_option (\<lambda>m. (m_cmd m, m_data m)))"

lemma Feed_refines_aux:
  "abs_result (fst (Feed r report)) = fst (assemble (abs_rc r) (view (rc_channel r) report)) \<and>
   abs_rc (snd (Feed r report)) = snd (assemble (abs_rc r) (view (rc_channel r) report))"
  by (auto simp: Feed_view finish_eq abs_rc_def abs_result_def settle_def split: packet.split)

text \<open>
  The invariant: a message being collected is on the reassembler's channel, is shorter than
  announced, was announced in two bytes, and has used as many continuations as \<open>seq\<close> says,
  each numbered below \<open>0x80\<close>.
\<close>

definition rc_inv :: "reassembler \<Rightarrow> bool" where
  "rc_inv r \<longleftrightarrow> (rc_started r \<longrightarrow>
     m_channel (rc_msg r) = rc_channel r \<and> length (m_data (rc_msg r)) < rc_want r \<and>
     rc_want r < 2 ^ 16 \<and> rc_seq r \<le> MaxContinuations)"

text \<open>The bound that holds when no report is longer than \<open>ReportSize\<close>.\<close>

definition rc_bounded :: "reassembler \<Rightarrow> bool" where
  "rc_bounded r \<longleftrightarrow> (rc_started r \<longrightarrow>
     length (m_data (rc_msg r)) \<le> initPayload + rc_seq r * contPayload)"

lemma rc_inv_New: "rc_inv (NewReassembler ch)"
  by (simp add: rc_inv_def NewReassembler_def)

lemma rc_bounded_New: "rc_bounded (NewReassembler ch)"
  by (simp add: rc_bounded_def NewReassembler_def)

lemma view_Start_bound: "view ch r = Start cmd n p \<Longrightarrow> n < 2 ^ 16"
  using unsigned_less [of "get16 (take 2 (drop 5 r))", where ?'a = nat]
  by (auto simp: view_def split: if_splits)

lemma Feed_inv: "rc_inv r \<Longrightarrow> rc_inv (snd (Feed r report))"
  by (auto simp: Feed_view finish_eq rc_inv_def wire_simps
      dest: view_Start_bound view_Cont_bound split: packet.split)

lemma view_payload_bound:
  assumes "length report \<le> ReportSize"
  shows "view ch report = Start cmd n p \<Longrightarrow> length p \<le> initPayload"
    and "view ch report = Cont k p \<Longrightarrow> length p \<le> contPayload"
  using assms by (auto simp: view_def wire_simps split: if_splits)

lemma Feed_bounded:
  assumes "rc_bounded r" and "length report \<le> ReportSize"
  shows "rc_bounded (snd (Feed r report))"
  using assms(1) view_payload_bound [OF assms(2), of "rc_channel r"]
  by (fastforce simp: Feed_view finish_eq rc_bounded_def split: packet.split)

text \<open>What a completed message looks like, from any state that satisfies the invariant.\<close>

lemma Feed_delivers:
  assumes "rc_inv r" and "Feed r report = (Inr (Some m), r')"
  shows "m_channel m = rc_channel r \<and> \<not> rc_started r' \<and> length (m_data m) < 2 ^ 16"
proof (cases "view (rc_channel r) report")
  case (Start cmd n p)
  with assms view_Start_bound [OF Start] show ?thesis
    by (auto simp: Feed_view finish_eq split: if_splits)
next
  case (Cont k p)
  with assms show ?thesis
    by (auto simp: Feed_view finish_eq rc_inv_def split: if_splits)
qed (use assms in \<open>auto simp: Feed_view\<close>)

lemma Feed_delivers_bounded:
  assumes "rc_inv r" and "rc_bounded r" and "length report \<le> ReportSize"
    and "Feed r report = (Inr (Some m), r')"
  shows "length (m_data m) \<le> MaxMessage"
proof (cases "view (rc_channel r) report")
  case (Start cmd n p)
  with assms(4) view_payload_bound(1) [OF assms(3) Start] show ?thesis
    by (auto simp: Feed_view finish_eq wire_simps split: if_splits)
next
  case (Cont k p)
  with assms view_payload_bound(2) [OF assms(3) Cont] view_Cont_bound [OF Cont] show ?thesis
    by (auto simp: Feed_view finish_eq rc_bounded_def wire_simps split: if_splits)
qed (use assms(4) in \<open>auto simp: Feed_view\<close>)

section \<open>Feeding a sequence of reports\<close>

text \<open>What a receiver answers to each report of a stream, and where it ends.\<close>

fun run_feed :: "('s \<Rightarrow> bytes \<Rightarrow> 'm option outcome \<times> 's) \<Rightarrow> 's \<Rightarrow> bytes list \<Rightarrow>
    'm option outcome list \<times> 's" where
  "run_feed feed s [] = ([], s)"
| "run_feed feed s (r # rs) =
     (fst (feed s r) # fst (run_feed feed (snd (feed s r)) rs),
      snd (run_feed feed (snd (feed s r)) rs))"

text \<open>The messages among the answers.\<close>

fun delivered :: "'m option outcome list \<Rightarrow> 'm list" where
  "delivered [] = []"
| "delivered (Inr (Some m) # os) = m # delivered os"
| "delivered (_ # os) = delivered os"

lemma run_feed_append:
  "run_feed feed s (xs @ ys) =
     (fst (run_feed feed s xs) @ fst (run_feed feed (snd (run_feed feed s xs)) ys),
      snd (run_feed feed (snd (run_feed feed s xs)) ys))"
  by (induction xs arbitrary: s) auto

lemma delivered_append: "delivered (xs @ ys) = delivered xs @ delivered ys"
  by (induction xs rule: delivered.induct) auto

lemma set_delivered: "m \<in> set (delivered os) \<longleftrightarrow> Inr (Some m) \<in> set os"
  by (induction os rule: delivered.induct) auto

lemma delivered_pending [simp]: "delivered (replicate n (Inr None)) = []"
  by (induction n) auto

lemma run_feed_invariant:
  assumes "\<And>s r. I s \<Longrightarrow> r \<in> set rs \<Longrightarrow> I (snd (feed s r))" and "I s"
  shows "I (snd (run_feed feed s rs))"
  using assms
proof (induction rs arbitrary: s)
  case (Cons r rs)
  have "I (snd (feed s r))" using Cons.prems by simp
  then have "I (snd (run_feed feed (snd (feed s r)) rs))"
    using Cons.prems(1) by (intro Cons.IH) auto
  then show ?case by simp
qed simp

text \<open>Every answer of a stream is the answer in some state that satisfies the invariant.\<close>

lemma run_feed_answer:
  assumes "\<And>s r. I s \<Longrightarrow> r \<in> set rs \<Longrightarrow> I (snd (feed s r))" and "I s"
    and "a \<in> set (fst (run_feed feed s rs))"
  obtains s' r where "I s'" and "r \<in> set rs" and "a = fst (feed s' r)"
  using assms
proof (induction rs arbitrary: s thesis)
  case (Cons r rs)
  have I1: "I (snd (feed s r))" using Cons.prems by simp
  consider "a = fst (feed s r)" | "a \<in> set (fst (run_feed feed (snd (feed s r)) rs))"
    using Cons.prems(4) by auto
  then show ?case
  proof cases
    case 1
    with Cons.prems show ?thesis by auto
  next
    case 2
    show ?thesis
    proof (rule Cons.IH [OF _ _ I1 2])
      fix s' r' assume "I s'" "r' \<in> set rs" "a = fst (feed s' r')"
      then show thesis by (intro Cons.prems(1) [of s' r']) auto
    qed (use Cons.prems(2) in auto)
  qed
qed simp

section \<open>Split against Feed\<close>

lemma high_bit_or: "bit (0x80 OR cmd :: byte) 7"
  by (simp add: bit_or_iff)

lemma x80_push_bit: "(0x80 :: byte) = push_bit 7 1"
  by simp

lemma strip_high_bit: "(0x80 OR cmd) AND NOT 0x80 = (cmd AND NOT 0x80 :: byte)"
  unfolding x80_push_bit by (rule bit_word_eqI) (auto simp: bit_simps simp del: push_bit_of_1)

lemma byte_of_nat_high: "n < 128 \<Longrightarrow> \<not> bit (of_nat n :: byte) 7"
proof -
  assume "n < 128"
  then have "\<not> bit n 7" by (simp add: bit_iff_odd)
  then show ?thesis by (simp add: bit_simps)
qed

lemma view_init_packet:
  assumes "length data < 2 ^ 16"
  shows "view ch (init_packet ch cmd data) =
    Start (cmd AND NOT 0x80) (length data) (take 57 data @ make_bytes (57 - length data))"
  using assms
  by (simp add: view_def init_packet_eq nth_append high_bit_or get32_Put get16_Put unat_of_nat
      strip_high_bit [simplified])

lemma view_cont_packet:
  assumes "seq < 128"
  shows "view ch (cont_packet ch seq rest) = Cont seq (take 59 rest @ make_bytes (59 - length rest))"
  using assms byte_of_nat_high [OF assms]
  by (simp add: view_def cont_packet_eq nth_append get32_Put unat_of_nat min_def)

lemma run_feed_continuations:
  assumes "rc_channel r = ch" and "rc_started r" and "rc_seq r = seq"
    and "m_data (rc_msg r) = d" and "rc_want r = length d + length rest" and "rest \<noteq> []"
    and "seq + length (continuations ch seq rest) \<le> 128"
  shows "\<exists>r'. run_feed Feed r (continuations ch seq rest) =
      (replicate (length (continuations ch seq rest) - 1) (Inr None) @
        [Inr (Some ((rc_msg r)\<lparr>m_data := d @ rest\<rparr>))], r') \<and>
      \<not> rc_started r' \<and> rc_channel r' = ch"
  using assms
proof (induction ch seq rest arbitrary: r d rule: continuations.induct)
  case (1 ch seq rest)
  let ?p = "take 59 rest @ make_bytes (59 - length rest)"
  have seq: "seq < 128"
    using "1.prems"(6,7) by (simp add: continuations_step)
  show ?case
  proof (cases "length rest \<le> 59")
    case True
    with "1.prems" seq show ?thesis
      by (simp add: continuations_step Feed_view view_cont_packet finish_eq)
  next
    case False
    let ?r1 = "r\<lparr>rc_seq := Suc seq, rc_msg := (rc_msg r)\<lparr>m_data := d @ take 59 rest\<rparr>\<rparr>"
    have step: "Feed r (cont_packet ch seq rest) = (Inr None, ?r1)"
      using "1.prems" seq False by (simp add: Feed_view view_cont_packet finish_eq)
    have "\<exists>r'. run_feed Feed ?r1 (continuations ch (Suc seq) (drop 59 rest)) =
        (replicate (length (continuations ch (Suc seq) (drop 59 rest)) - 1) (Inr None) @
          [Inr (Some ((rc_msg ?r1)\<lparr>m_data := (d @ take 59 rest) @ drop 59 rest\<rparr>))], r') \<and>
        \<not> rc_started r' \<and> rc_channel r' = ch"
      using "1.prems" False by (intro "1.IH") (auto simp: continuations_step)
    moreover have "length (continuations ch (Suc seq) (drop 59 rest)) \<noteq> 0"
      using False by (simp add: continuations_step)
    ultimately show ?thesis
      using "1.prems"(6) step
      by (auto simp: continuations_step simp flip: replicate_Suc intro!: arg_cong [of _ _ "\<lambda>n. replicate n _"])
  qed
qed

text \<open>A whole message, fed to a reassembler of its channel in any state.\<close>

definition message :: "u32 \<Rightarrow> byte \<Rightarrow> bytes \<Rightarrow> Message" where
  "message ch cmd data = \<lparr>m_channel = ch, m_cmd = cmd AND NOT 0x80, m_data = data\<rparr>"

lemma run_feed_packets:
  assumes "rc_channel r = ch" and "length data \<le> MaxMessage"
  shows "\<exists>r'. run_feed Feed r (packets ch cmd data) =
      (replicate (length (packets ch cmd data) - 1) (Inr None) @ [Inr (Some (message ch cmd data))], r') \<and>
      \<not> rc_started r' \<and> rc_channel r' = ch"
proof -
  have len: "length data < 2 ^ 16" using assms(2) by (simp add: wire_simps)
  show ?thesis
  proof (cases "length data \<le> 57")
    case True
    with assms len show ?thesis
      by (simp add: packets_def Feed_view view_init_packet finish_eq message_def)
  next
    case False
    let ?r1 = "r\<lparr>rc_msg := \<lparr>m_channel = ch, m_cmd = cmd AND NOT 0x80, m_data = take 57 data\<rparr>,
                 rc_want := length data, rc_seq := 0, rc_started := True\<rparr>"
    have step: "Feed r (init_packet ch cmd data) = (Inr None, ?r1)"
      using assms len False by (simp add: Feed_view view_init_packet finish_eq)
    have "\<exists>r'. run_feed Feed ?r1 (continuations ch 0 (drop 57 data)) =
        (replicate (length (continuations ch 0 (drop 57 data)) - 1) (Inr None) @
          [Inr (Some ((rc_msg ?r1)\<lparr>m_data := take 57 data @ drop 57 data\<rparr>))], r') \<and>
        \<not> rc_started r' \<and> rc_channel r' = ch"
      using assms False length_packets_le [OF assms(2), of ch cmd]
      by (intro run_feed_continuations) (auto simp: packets_def wire_simps)
    moreover have "length (continuations ch 0 (drop 57 data)) \<noteq> 0"
      using False by (simp add: continuations_step)
    ultimately show ?thesis
      using step by (auto simp: packets_def message_def simp flip: replicate_Suc)
  qed
qed

section \<open>The contract between sender and receiver\<close>

text \<open>
  \<open>split\<close> cuts a message of the class \<open>ok\<close> into reports; \<open>feed\<close> is a receiver whose states of
  the class \<open>own\<close> it never leaves.  Fed the reports of one message, such a receiver delivers
  it with the last one and nothing before; it refuses a foreign report without noticing it.
  The clients' laws follow: a stream with any foreign traffic in between delivers exactly the
  messages that were sent, in order, and complains of nothing else.
\<close>

locale framing =
  fixes split :: "'m \<Rightarrow> bytes list"
    and ok :: "'m \<Rightarrow> bool"
    and feed :: "'s \<Rightarrow> bytes \<Rightarrow> 'm option outcome \<times> 's"
    and own :: "'s \<Rightarrow> bool"
    and foreign :: "bytes \<Rightarrow> bool"
  assumes own_feed: "own s \<Longrightarrow> own (snd (feed s r))"
    and split_nonempty: "ok m \<Longrightarrow> split m \<noteq> []"
    and split_own: "ok m \<Longrightarrow> r \<in> set (split m) \<Longrightarrow> \<not> foreign r"
    and feed_split: "own s \<Longrightarrow> ok m \<Longrightarrow> fst (run_feed feed s (split m)) =
          replicate (length (split m) - 1) (Inr None) @ [Inr (Some m)]"
    and feed_foreign: "own s \<Longrightarrow> foreign r \<Longrightarrow> feed s r = (Inl (Wire ErrWrongChannel), s)"
begin

lemma own_run: "own s \<Longrightarrow> own (snd (run_feed feed s rs))"
  by (rule run_feed_invariant) (auto intro: own_feed)

text \<open>Foreign reports change neither the answers to the others nor the state.\<close>

lemma run_own_only:
  assumes "own s"
  shows "filter (\<lambda>a. a \<noteq> Inl (Wire ErrWrongChannel)) (fst (run_feed feed s rs)) =
     filter (\<lambda>a. a \<noteq> Inl (Wire ErrWrongChannel))
       (fst (run_feed feed s (filter (\<lambda>r. \<not> foreign r) rs)))"
    and "snd (run_feed feed s rs) = snd (run_feed feed s (filter (\<lambda>r. \<not> foreign r) rs))"
  using assms by (induction rs arbitrary: s) (simp_all add: feed_foreign own_feed)

lemma delivered_filter:
  "delivered (filter (\<lambda>a. a \<noteq> Inl e) os) = delivered os"
  by (induction os rule: delivered.induct) auto

lemma stream_of_messages:
  assumes "own s" and "\<forall>m \<in> set ms. ok m"
  shows "delivered (fst (run_feed feed s (concat (map split ms)))) = ms"
    and "\<forall>a \<in> set (fst (run_feed feed s (concat (map split ms)))). \<exists>m. a = Inr m"
proof -
  show "delivered (fst (run_feed feed s (concat (map split ms)))) = ms"
    using assms by (induction ms arbitrary: s)
      (simp_all add: run_feed_append delivered_append feed_split own_run)
  show "\<forall>a \<in> set (fst (run_feed feed s (concat (map split ms)))). \<exists>m. a = Inr m"
    using assms
  proof (induction ms arbitrary: s)
    case (Cons m ms)
    then show ?case
      using Cons.IH [OF own_run [OF Cons.prems(1)], of "split m"]
      by (simp add: run_feed_append feed_split ball_Un)
  qed simp
qed

lemma interleaved_stream:
  assumes "own s" and "\<forall>m \<in> set ms. ok m"
    and "filter (\<lambda>r. \<not> foreign r) rs = concat (map split ms)"
  shows "delivered (fst (run_feed feed s rs)) = ms"
    and "\<forall>a \<in> set (fst (run_feed feed s rs)). a = Inl (Wire ErrWrongChannel) \<or> (\<exists>m. a = Inr m)"
proof -
  let ?clean = "fst (run_feed feed s (concat (map split ms)))"
  let ?all = "fst (run_feed feed s rs)"
  have same: "filter (\<lambda>a. a \<noteq> Inl (Wire ErrWrongChannel)) ?all =
      filter (\<lambda>a. a \<noteq> Inl (Wire ErrWrongChannel)) ?clean"
    using run_own_only(1) [OF assms(1), of rs] assms(3) by simp
  have "delivered ?all = delivered ?clean"
    using arg_cong [OF same, of delivered] by (simp add: delivered_filter)
  then show "delivered ?all = ms"
    using stream_of_messages(1) [OF assms(1,2)] by simp
  show "\<forall>a \<in> set ?all. a = Inl (Wire ErrWrongChannel) \<or> (\<exists>m. a = Inr m)"
  proof
    fix a assume "a \<in> set ?all"
    then consider "a = Inl (Wire ErrWrongChannel)" | "a \<in> set ?clean"
      using arg_cong [OF same, of set] by auto
    then show "a = Inl (Wire ErrWrongChannel) \<or> (\<exists>m. a = Inr m)"
      using stream_of_messages(2) [OF assms(1,2)] by cases auto
  qed
qed

end

text \<open>
  The client that stops at a message \<open>m\<close>: with \<open>r\<close> the last of \<open>m\<close>'s reports, everything it
  heard before \<open>r\<close> was another's, incomplete, or one of the messages before \<open>m\<close>.
\<close>

context framing
begin

lemma run_split_butlast:
  assumes "own s" and "ok m" and "split m = ps @ [r]"
  shows "fst (run_feed feed s ps) = replicate (length ps) (Inr None)"
    and "fst (feed (snd (run_feed feed s ps)) r) = Inr (Some m)"
  using feed_split [OF assms(1,2)] assms(3) by (simp_all add: run_feed_append)

lemma interleaved_until:
  assumes "own s" and "\<forall>k \<in> set ks. ok k" and "ok m" and "\<not> foreign r"
    and "filter (\<lambda>p. \<not> foreign p) (rs @ [r]) = concat (map split ks) @ split m"
  shows "fst (feed (snd (run_feed feed s rs)) r) = Inr (Some m)"
    and "\<forall>a \<in> set (fst (run_feed feed s rs)).
      a = Inl (Wire ErrWrongChannel) \<or> a = Inr None \<or> (\<exists>k \<in> set ks. a = Inr (Some k))"
proof -
  let ?own = "filter (\<lambda>p. \<not> foreign p) rs"
  obtain ps p where m: "split m = ps @ [p]"
    using split_nonempty [OF assms(3)] by (metis rev_exhaust)
  with assms(4,5) have r: "p = r" and own_part: "?own = concat (map split ks) @ ps"
    by auto
  let ?s1 = "snd (run_feed feed s (concat (map split ks)))"
  have s1: "own ?s1" using assms(1) by (rule own_run)
  have "snd (run_feed feed s rs) = snd (run_feed feed ?s1 ps)"
    using run_own_only(2) [OF assms(1), of rs] own_part by (simp add: run_feed_append)
  then show "fst (feed (snd (run_feed feed s rs)) r) = Inr (Some m)"
    using run_split_butlast(2) [OF s1 assms(3)] m r by simp
  show "\<forall>a \<in> set (fst (run_feed feed s rs)).
      a = Inl (Wire ErrWrongChannel) \<or> a = Inr None \<or> (\<exists>k \<in> set ks. a = Inr (Some k))"
  proof
    fix a assume "a \<in> set (fst (run_feed feed s rs))"
    then consider "a = Inl (Wire ErrWrongChannel)" | "a \<in> set (fst (run_feed feed s ?own))"
      using arg_cong [OF run_own_only(1) [OF assms(1), of rs], of set] by auto
    then show "a = Inl (Wire ErrWrongChannel) \<or> a = Inr None \<or> (\<exists>k \<in> set ks. a = Inr (Some k))"
    proof cases
      case 2
      then consider "a \<in> set (fst (run_feed feed s (concat (map split ks))))"
        | "a \<in> set (fst (run_feed feed ?s1 ps))"
        by (auto simp: own_part run_feed_append)
      then show ?thesis
      proof cases
        case 1
        with stream_of_messages(2) [OF assms(1,2)] obtain o1 where a: "a = Inr o1" by blast
        show ?thesis
        proof (cases o1)
          case (Some k)
          with 1 a have "k \<in> set (delivered (fst (run_feed feed s (concat (map split ks)))))"
            by (simp add: set_delivered)
          with a Some show ?thesis by (simp add: stream_of_messages(1) [OF assms(1,2)])
        qed (simp add: a)
      next
        case 2
        with run_split_butlast(1) [OF s1 assms(3) m] show ?thesis by simp
      qed
    qed simp
  qed
qed

end

text \<open>The messages \<open>Split\<close> accepts on a channel, and what its reassembler calls foreign.\<close>

definition sendable :: "u32 \<Rightarrow> Message \<Rightarrow> bool" where
  "sendable ch m \<longleftrightarrow> m_channel m = ch \<and> m_cmd m AND NOT 0x80 = m_cmd m \<and>
     length (m_data m) \<le> MaxMessage"

definition reports_of :: "Message \<Rightarrow> bytes list" where
  "reports_of m = (case Split (m_channel m) (m_cmd m) (m_data m) of Inl _ \<Rightarrow> [] | Inr ps \<Rightarrow> ps)"

definition foreign_to :: "u32 \<Rightarrow> bytes \<Rightarrow> bool" where
  "foreign_to ch r \<longleftrightarrow> 5 \<le> length r \<and> take 4 r \<noteq> PutUint32 ch"

lemma reports_of_sendable:
  "sendable ch m \<Longrightarrow> reports_of m = packets ch (m_cmd m) (m_data m)"
  by (simp add: reports_of_def sendable_def Split_eq)

lemma message_sendable: "sendable ch m \<Longrightarrow> message ch (m_cmd m) (m_data m) = m"
  by (simp add: sendable_def message_def)

interpretation ctaphid: framing reports_of "sendable ch" Feed "\<lambda>r. rc_channel r = ch" "foreign_to ch"
  for ch
proof
  fix r :: reassembler and m :: Message
  assume "rc_channel r = ch" and m: "sendable ch m"
  then obtain r' where "run_feed Feed r (packets ch (m_cmd m) (m_data m)) =
      (replicate (length (packets ch (m_cmd m) (m_data m)) - 1) (Inr None) @
        [Inr (Some (message ch (m_cmd m) (m_data m)))], r')"
    using run_feed_packets [of r ch "m_data m" "m_cmd m"] by (auto simp: sendable_def)
  then show "fst (run_feed Feed r (reports_of m)) =
      replicate (length (reports_of m) - 1) (Inr None) @ [Inr (Some m)]"
    by (simp add: reports_of_sendable [OF m] message_sendable [OF m])
next
  fix r :: reassembler and report
  assume "rc_channel r = ch" and "foreign_to ch report"
  then have "view (rc_channel r) report = Foreign"
    by (simp add: view_foreign foreign_to_def)
  then show "Feed r report = (Inl (Wire ErrWrongChannel), r)"
    by (simp add: Feed_view)
qed (auto simp: reports_of_sendable packets_channel foreign_to_def packets_def)

section \<open>Properties\<close>

text \<open>
  C6. A message that fits, cut by \<open>Split\<close> and fed report by report to a reassembler of its
  channel in any state at all, comes back with its last report and not before: the same bytes
  on the same channel under the same command, less the command's high bit.  Afterwards the
  reassembler is ready for the next message.
\<close>

theorem split_reassemble_roundtrip:
  assumes "rc_channel r = ch" and "length data \<le> MaxMessage"
  shows "\<exists>ps r'. Split ch cmd data = Inr ps \<and>
    run_feed Feed r ps = (replicate (length ps - 1) (Inr None) @
      [Inr (Some \<lparr>m_channel = ch, m_cmd = cmd AND NOT 0x80, m_data = data\<rparr>)], r') \<and>
    \<not> rc_started r' \<and> rc_channel r' = ch"
  using run_feed_packets [OF assms, of cmd] assms(2)
  by (auto simp: Split_eq message_def)

theorem split_reassemble_roundtrip_witness:
  "\<exists>ps r'. Split 0xdeadbeef CmdPing [1, 2, 3] = Inr ps \<and>
    run_feed Feed (NewReassembler 0xdeadbeef) ps = (replicate (length ps - 1) (Inr None) @
      [Inr (Some \<lparr>m_channel = 0xdeadbeef, m_cmd = CmdPing AND NOT 0x80, m_data = [1, 2, 3]\<rparr>)], r') \<and>
    \<not> rc_started r' \<and> rc_channel r' = 0xdeadbeef"
  by (rule split_reassemble_roundtrip) (simp_all add: NewReassembler_def wire_simps)

text \<open>
  C31. What \<open>Split\<close> puts on the wire: one initialisation packet, whose command byte has its high
  bit set, and just enough continuations for the rest, numbered from zero and never reaching
  the high bit; every report is exactly \<open>ReportSize\<close> bytes long and starts with the channel;
  and the payloads in order are the message followed by zeroes only.
\<close>

theorem Split_packets:
  assumes "Split ch cmd data = Inr ps"
  shows "length ps = 1 + (length data - initPayload + (contPayload - 1)) div contPayload \<and>
    length ps \<le> 1 + MaxContinuations \<and>
    (\<forall>p \<in> set ps. length p = ReportSize \<and> take 4 p = PutUint32 ch) \<and>
    hd ps ! 4 = 0x80 OR cmd \<and> take 2 (drop 5 (hd ps)) = PutUint16 (of_nat (length data)) \<and>
    (\<forall>i. Suc i < length ps \<longrightarrow> unat (ps ! Suc i ! 4) = i \<and> \<not> bit (ps ! Suc i ! 4) 7) \<and>
    (\<exists>pad. drop 7 (hd ps) @ concat (map (drop 5) (tl ps)) = data @ make_bytes pad)"
proof -
  from assms have fits: "length data \<le> MaxMessage" and ps: "ps = packets ch cmd data"
    by (simp_all add: Split_Inr)
  have numbered: "unat (ps ! Suc i ! 4) = i \<and> \<not> bit (ps ! Suc i ! 4) 7" if "Suc i < length ps" for i
  proof -
    have "i < 128"
      using that length_packets_le [OF fits, of ch cmd] by (simp add: ps wire_simps)
    then show ?thesis
      using that byte_of_nat_high [of i]
      by (simp add: ps packets_nth_Suc cont_packet_eq nth_append unat_of_nat)
  qed
  have payload: "\<exists>pad. drop 7 (hd ps) @ concat (map (drop 5) (tl ps)) = data @ make_bytes pad"
    unfolding ps by (rule packets_payload)
  have "\<forall>p \<in> set ps. length p = ReportSize \<and> take 4 p = PutUint32 ch"
    by (simp add: ps packets_report_sized packets_channel wire_simps)
  moreover have "length ps = 1 + (length data - initPayload + (contPayload - 1)) div contPayload"
    by (simp add: ps length_packets wire_simps)
  moreover have "length ps \<le> 1 + MaxContinuations"
    using length_packets_le [OF fits, of ch cmd] by (simp add: ps)
  moreover have "hd ps ! 4 = 0x80 OR cmd \<and> take 2 (drop 5 (hd ps)) = PutUint16 (of_nat (length data))"
    by (simp add: ps packets_def init_packet_eq nth_append)
  ultimately show ?thesis using numbered payload by blast
qed

theorem Split_packets_witness:
  "\<exists>ps. Split 1 CmdPing (replicate 60 7) = Inr ps \<and> length ps = 2 \<and> unat (ps ! Suc 0 ! 4) = 0"
proof -
  have fits: "Split 1 CmdPing (replicate 60 7) = Inr (packets 1 CmdPing (replicate 60 7))"
    by (simp add: Split_eq wire_simps)
  show ?thesis
    using fits Split_packets [OF fits] by (simp add: wire_simps)
qed

text \<open>
  The limit is the framing's.  \<open>Split\<close> refuses a message exactly when it is longer than
  7609 bytes, with \<open>ErrTooLong\<close> and nothing else; and the limit is tight: the longest message
  takes all 128 continuations, the last of them numbered \<open>0x7F\<close>, so one more byte would need
  the number \<open>0x80\<close>, which a key reads as the start of a message.
\<close>

lemma Split_limit:
  "(Split ch cmd data = Inl e \<longleftrightarrow> 7609 < length data \<and> e = Wire ErrTooLong) \<and>
   (\<exists>ps. Split ch cmd (replicate 7609 b) = Inr ps \<and> length ps = 129 \<and> unat (last ps ! 4) = 0x7F) \<and>
   MaxMessage = 7609"
proof -
  let ?ps = "packets ch cmd (replicate 7609 b)"
  have len: "length ?ps = 129" by (simp add: length_packets)
  have "last ?ps = ?ps ! (length ?ps - 1)"
    by (rule last_conv_nth) (simp add: packets_def)
  also have "\<dots> = ?ps ! Suc 127" by (simp add: len)
  also have "\<dots> = cont_packet ch 127 (drop (57 + 59 * 127) (replicate 7609 b))"
    by (rule packets_nth_Suc) (simp add: len)
  finally have "unat (last ?ps ! 4) = 0x7F"
    by (simp add: cont_packet_eq nth_append)
  with len show ?thesis by (auto simp: Split_Inl Split_eq wire_simps)
qed

text \<open>
  Different messages look different on the wire: two calls of \<open>Split\<close> that make the same
  reports were given the same channel, the same bytes, and commands that differ at most in the
  high bit.
\<close>

lemma Split_injective:
  assumes "Split ch cmd data = Inr ps" and "Split ch' cmd' data' = Inr ps"
  shows "ch = ch' \<and> 0x80 OR cmd = 0x80 OR cmd' \<and> data = data'"
proof -
  from assms have fits: "length data \<le> MaxMessage" "length data' \<le> MaxMessage"
    and eq: "packets ch cmd data = packets ch' cmd' data'"
    by (simp_all add: Split_Inr)
  then have head: "init_packet ch cmd data = init_packet ch' cmd' data'"
    by (simp add: packets_def)
  then have ch: "ch = ch'" and rest: "(0x80 OR cmd) # PutUint16 (of_nat (length data)) @
        take 57 data @ make_bytes (57 - length data) =
      (0x80 OR cmd') # PutUint16 (of_nat (length data')) @ take 57 data' @ make_bytes (57 - length data')"
    unfolding init_packet_eq be32.put_append_inject by simp_all
  have "fst (run_feed Feed (NewReassembler ch) (packets ch cmd data)) =
      fst (run_feed Feed (NewReassembler ch) (packets ch cmd' data'))"
    using eq ch by simp
  then have "message ch cmd data = message ch cmd' data'"
    using run_feed_packets [of "NewReassembler ch" ch data cmd] fits
      run_feed_packets [of "NewReassembler ch" ch data' cmd']
    by (auto simp: NewReassembler_def)
  with ch rest show ?thesis by (simp add: message_def)
qed

text \<open>
  C26. Another program's traffic does no harm.  However the reports of other channels are mixed
  into the reports of a sequence of messages, the reassembler delivers exactly those messages,
  in order, and the only thing it complains of is the foreign reports.
\<close>

theorem messages_survive_foreign_traffic:
  assumes "rc_channel r = ch" and "\<forall>m \<in> set ms. sendable ch m"
    and "filter (\<lambda>p. \<not> foreign_to ch p) reports = concat (map reports_of ms)"
  shows "delivered (fst (run_feed Feed r reports)) = ms \<and>
    (\<forall>a \<in> set (fst (run_feed Feed r reports)). a = Inl (Wire ErrWrongChannel) \<or> (\<exists>m. a = Inr m))"
  using ctaphid.interleaved_stream [OF assms] by blast

theorem messages_survive_foreign_traffic_witness:
  "delivered (fst (run_feed Feed (NewReassembler 1)
      [init_packet 2 CmdPing [9], init_packet 1 CmdPing [4], init_packet 2 CmdWink []])) =
    [\<lparr>m_channel = 1, m_cmd = CmdPing, m_data = [4]\<rparr>]"
proof -
  let ?m = "\<lparr>m_channel = 1, m_cmd = CmdPing, m_data = [4]\<rparr>"
  let ?rs = "[init_packet 2 CmdPing [9], init_packet 1 CmdPing [4], init_packet 2 CmdWink []]"
  have ok: "\<forall>m \<in> set [?m]. sendable 1 m"
    by (simp add: sendable_def CmdPing_def wire_simps)
  then have "reports_of ?m = [init_packet 1 CmdPing [4]]"
    by (simp add: reports_of_sendable packets_def)
  then have "filter (\<lambda>p. \<not> foreign_to 1 p) ?rs = concat (map reports_of [?m])"
    by (simp add: foreign_to_def init_packet_eq be32.put_inject)
  then show ?thesis
    using messages_survive_foreign_traffic [OF _ ok, of "NewReassembler 1" ?rs]
    by (simp add: NewReassembler_def)
qed

text \<open>
  C13. The reassembler implements the protocol machine: over any stream of reports whatever, it
  answers what the machine answers, and ends in a state that stands for the machine's.  In
  particular nothing it still holds of a finished or abandoned message can be seen again.
\<close>

theorem Feed_refines_machine:
  "map abs_result (fst (run_feed Feed r reports)) =
      fst (run_feed (\<lambda>a p. assemble a (view (rc_channel r) p)) (abs_rc r) reports) \<and>
   abs_rc (snd (run_feed Feed r reports)) =
      snd (run_feed (\<lambda>a p. assemble a (view (rc_channel r) p)) (abs_rc r) reports)"
proof (induction reports arbitrary: r)
  case (Cons p reports)
  then show ?case
    using Feed_refines_aux [of r p] by simp
qed simp

lemma run_feed_bounds:
  assumes "\<forall>p \<in> set reports. length p \<le> ReportSize"
  shows "(\<forall>m. Inr (Some m) \<in> set (fst (run_feed Feed (NewReassembler ch) reports)) \<longrightarrow>
            m_channel m = ch \<and> length (m_data m) \<le> MaxMessage) \<and>
    (\<forall>r. r = snd (run_feed Feed (NewReassembler ch) reports) \<and> rc_started r \<longrightarrow>
            length (m_data (rc_msg r)) < rc_want r \<and> length (m_data (rc_msg r)) \<le> MaxMessage \<and>
            rc_seq r \<le> MaxContinuations)"
proof -
  let ?I = "\<lambda>r. rc_channel r = ch \<and> rc_inv r \<and> rc_bounded r"
  have step: "?I (snd (Feed s p))" if "?I s" "p \<in> set reports" for s p
    using that assms by (simp add: Feed_inv Feed_bounded)
  have start: "?I (NewReassembler ch)"
    by (simp add: rc_inv_New rc_bounded_New) (simp add: NewReassembler_def)
  have end_state: "?I (snd (run_feed Feed (NewReassembler ch) reports))"
    by (rule run_feed_invariant [of ?I, OF step start])
  have "m_channel m = ch \<and> length (m_data m) \<le> MaxMessage"
    if m: "Inr (Some m) \<in> set (fst (run_feed Feed (NewReassembler ch) reports))" for m
  proof (rule run_feed_answer [of ?I, OF step start m])
    fix s p assume I: "?I s" and p: "p \<in> set reports" and "Inr (Some m) = fst (Feed s p)"
    then have "Feed s p = (Inr (Some m), snd (Feed s p))" by (simp add: prod_eq_iff)
    with I p assms show ?thesis
      using Feed_delivers [of s p m] Feed_delivers_bounded [of s p m] by auto
  qed
  moreover have "length (m_data (rc_msg r)) \<le> MaxMessage"
    if "?I r" "rc_started r" for r
    using that by (auto simp: rc_inv_def rc_bounded_def wire_simps)
  ultimately show ?thesis using end_state by (auto simp: rc_inv_def)
qed

text \<open>
  C27. What a key can make the reassembler hold or return, whatever it sends in reports of at most
  \<open>ReportSize\<close> bytes: a delivered message is on the reassembler's channel and within the
  framing's limit of 7609 bytes, not the 65535 its length field can announce; and between
  reports the buffer is shorter than what was announced and within that limit, and the
  sequence number never passes 128.
\<close>

theorem reassembler_bounds:
  assumes "\<forall>p \<in> set reports. length p \<le> ReportSize"
  shows "(\<forall>m. Inr (Some m) \<in> set (fst (run_feed Feed (NewReassembler ch) reports)) \<longrightarrow>
            m_channel m = ch \<and> length (m_data m) \<le> MaxMessage) \<and>
    (\<forall>r. r = snd (run_feed Feed (NewReassembler ch) reports) \<and> rc_started r \<longrightarrow>
            length (m_data (rc_msg r)) < rc_want r \<and> length (m_data (rc_msg r)) \<le> MaxMessage \<and>
            rc_seq r \<le> MaxContinuations)"
  using assms by (rule run_feed_bounds)

theorem reassembler_bounds_witness:
  "let r = snd (run_feed Feed (NewReassembler 1) [init_packet 1 CmdPing (replicate 100 5)]) in
     rc_started r \<and> length (m_data (rc_msg r)) < rc_want r"
proof -
  let ?p = "init_packet 1 CmdPing (replicate 100 5)"
  have "rc_started (snd (run_feed Feed (NewReassembler 1) [?p]))"
    by (simp add: Feed_view view_init_packet finish_eq NewReassembler_def)
  then show ?thesis
    using reassembler_bounds [of "[?p]" 1] by (simp add: wire_simps)
qed

text \<open>
  C32. \<open>Feed\<close> on any bytes whatever, in any state.  Each of its three errors arises in its own case
  and always in that case: too short a report; one of another channel; a continuation when no
  message has begun, or with another number than the next.  There is no fourth, panics included; an
  error leaves the reassembler as it was, and nothing changes its channel.
\<close>

theorem Feed_errors:
  "(fst (Feed r report) = Inl (Wire ErrShortPacket) \<longleftrightarrow> length report < 5 \<or>
      take 4 report = PutUint32 (rc_channel r) \<and> bit (report ! 4) 7 \<and> length report < 7) \<and>
   (fst (Feed r report) = Inl (Wire ErrWrongChannel) \<longleftrightarrow>
      5 \<le> length report \<and> take 4 report \<noteq> PutUint32 (rc_channel r)) \<and>
   (fst (Feed r report) = Inl (Wire ErrOutOfOrder) \<longleftrightarrow>
      5 \<le> length report \<and> take 4 report = PutUint32 (rc_channel r) \<and> \<not> bit (report ! 4) 7 \<and>
      \<not> (rc_started r \<and> unat (report ! 4) = rc_seq r)) \<and>
   (case Feed r report of
      (Inl e, r') \<Rightarrow> e \<in> {Wire ErrShortPacket, Wire ErrWrongChannel, Wire ErrOutOfOrder} \<and> r' = r
    | (Inr _, r') \<Rightarrow> rc_channel r' = rc_channel r)"
proof (cases "length report < 5")
  case False
  then have ch: "get32 (take 4 report) = rc_channel r \<longleftrightarrow> take 4 report = PutUint32 (rc_channel r)"
    by (intro be32.get_eq_iff) simp
  show ?thesis
    using False ch by (auto simp: Feed_view view_def finish_eq)
qed (simp add: Feed_view view_def)

theorem Feed_errors_witness:
  "fst (Feed (NewReassembler 1) [0, 0, 0, 1, 0]) = Inl (Wire ErrOutOfOrder)"
proof -
  have "[0, 0, 0, 1] = PutUint32 1" by (simp add: PutUint32_def)
  then show ?thesis
    using Feed_errors [of "NewReassembler 1" "[0, 0, 0, 1, 0]"] by (simp add: NewReassembler_def)
qed

end
