(* ===== verification/Handshake.thy ===== *)
theory Handshake
  imports Framing GoText
begin

text \<open>
  What a key says about itself in its reply to \<open>CTAPHID_INIT\<close>: the capability bits, the
  versions, and \<open>ParseInit\<close>.  The rest of \<open>fido.go\<close>.
\<close>

section \<open>Capabilities\<close>

type_synonym Capabilities = byte

definition CapWink :: Capabilities where "CapWink = 0x01"
definition CapCBOR :: Capabilities where "CapCBOR = 0x04"
definition CapNoMsg :: Capabilities where "CapNoMsg = 0x08"

definition Capabilities_Has :: "Capabilities \<Rightarrow> Capabilities \<Rightarrow> bool" where
  "Capabilities_Has c want \<longleftrightarrow> c AND want = want"

interpretation caps: flag_set Capabilities_Has
  by unfold_locales (simp add: Capabilities_Has_def and_eq_iff_bits)

text \<open>The closure \<open>add\<close> of \<open>Capabilities.String\<close>\<close>

definition add_name :: "string \<Rightarrow> string \<Rightarrow> string" where
  "add_name out s = (if out \<noteq> [] then out @ '', '' else out) @ s"

definition Capabilities_String :: "Capabilities \<Rightarrow> string" where
  "Capabilities_String c =
     (let out = [];
          out = (if Capabilities_Has c CapWink then add_name out ''wink'' else out);
          out = (if Capabilities_Has c CapCBOR then add_name out ''ctap2'' else out);
          out = (if \<not> Capabilities_Has c CapNoMsg then add_name out ''ctap1'' else out)
      in if out = [] then ''none ('' @ fmt_hex 2 (unat c) @ '')'' else out)"

section \<open>Version and Message, rendered\<close>

record Version =
  v_CTAPHID :: byte
  v_Major :: byte
  v_Minor :: byte
  v_Build :: byte

definition zero_version :: Version where
  "zero_version = \<lparr>v_CTAPHID = 0, v_Major = 0, v_Minor = 0, v_Build = 0\<rparr>"

definition Version_String :: "Version \<Rightarrow> string" where
  "Version_String v = ''CTAPHID v'' @ fmt_d (uint (v_CTAPHID v)) @ '', firmware '' @
     fmt_d (uint (v_Major v)) @ ''.'' @ fmt_d (uint (v_Minor v)) @ ''.'' @ fmt_d (uint (v_Build v))"

definition Message_String :: "Message \<Rightarrow> string" where
  "Message_String m = ''channel '' @ fmt_hex 8 (unat (m_channel m)) @ '' cmd '' @
     fmt_hex 2 (unat (m_cmd m)) @ '', '' @ fmt_d (int (length (m_data m))) @ '' byte(s)''"

section \<open>The reply to INIT\<close>

record InitReply =
  ir_Nonce :: bytes
  ir_Channel :: u32
  ir_Version :: Version
  ir_Caps :: Capabilities

text \<open>
  \<open>Nonce\<close> is an array of eight bytes; \<open>copy\<close> fills it from the first eight of the reply.
\<close>

definition ParseInit :: "bytes \<Rightarrow> InitReply outcome" where
  "ParseInit data =
     (if length data < 17 then Inl (Wire ErrTruncated)
      else bindR (slice data 0 8) (\<lambda>nonce.
           bindR (bindR (slice data 8 12) Uint32) (\<lambda>channel.
           bindR (index data 12) (\<lambda>ctaphid.
           bindR (index data 13) (\<lambda>major.
           bindR (index data 14) (\<lambda>minor.
           bindR (index data 15) (\<lambda>build.
           bindR (index data 16) (\<lambda>caps.
           Inr \<lparr>ir_Nonce = go_copy (make_bytes 8) nonce, ir_Channel = channel,
                ir_Version = \<lparr>v_CTAPHID = ctaphid, v_Major = major, v_Minor = minor, v_Build = build\<rparr>,
                ir_Caps = caps\<rparr>))))))))"

section \<open>Lemmas\<close>

lemma ParseInit_eq:
  "17 \<le> length data \<Longrightarrow> ParseInit data = Inr
     \<lparr>ir_Nonce = take 8 data, ir_Channel = get32 (take 4 (drop 8 data)),
      ir_Version = \<lparr>v_CTAPHID = data ! 12, v_Major = data ! 13, v_Minor = data ! 14, v_Build = data ! 15\<rparr>,
      ir_Caps = data ! 16\<rparr>"
  by (simp add: ParseInit_def)

lemma ParseInit_short: "length data < 17 \<Longrightarrow> ParseInit data = Inl (Wire ErrTruncated)"
  by (simp add: ParseInit_def)

text \<open>The layout of the reply, as a key writes it; a longer reply is read the same.\<close>

definition encode_init :: "InitReply \<Rightarrow> bytes" where
  "encode_init r = ir_Nonce r @ PutUint32 (ir_Channel r) @
     [v_CTAPHID (ir_Version r), v_Major (ir_Version r), v_Minor (ir_Version r), v_Build (ir_Version r),
      ir_Caps r]"

lemma encode_ParseInit:
  assumes "ParseInit data = Inr r"
  shows "data = encode_init r @ drop 17 data \<and> length (ir_Nonce r) = 8"
proof -
  have len: "17 \<le> length data"
    using assms by (cases "length data < 17") (simp_all add: ParseInit_short)
  have "data = take 8 data @ take 4 (drop 8 data) @ drop 12 data"
    using cut_twice [of data 8 4] by simp
  also have "drop 12 data = data ! 12 # data ! 13 # data ! 14 # data ! 15 # data ! 16 # drop 17 data"
    using len by (simp add: drop_nth_Cons)
  finally show ?thesis
    using assms len by (auto simp: ParseInit_eq encode_init_def be32.put_get)
qed

lemma ParseInit_encode:
  assumes "length (ir_Nonce r) = 8"
  shows "ParseInit (encode_init r @ extra) = Inr r"
  using assms by (simp add: ParseInit_eq encode_init_def nth_append get32_Put)

section \<open>Properties\<close>

text \<open>
  C36. \<open>ParseInit\<close> reads exactly the replies that begin with the seventeen bytes of the layout, its
  result is the one those bytes encode, whatever follows them is ignored, and anything shorter is
  truncated; there is no other error and no panic.
\<close>

theorem ParseInit_reads:
  "(ParseInit data = Inr r \<longleftrightarrow> (\<exists>extra. data = encode_init r @ extra) \<and> length (ir_Nonce r) = 8) \<and>
   (ParseInit data = Inl e \<longleftrightarrow> length data < 17 \<and> e = Wire ErrTruncated)"
proof
  show "ParseInit data = Inr r \<longleftrightarrow> (\<exists>extra. data = encode_init r @ extra) \<and> length (ir_Nonce r) = 8"
    using encode_ParseInit ParseInit_encode by blast
  show "ParseInit data = Inl e \<longleftrightarrow> length data < 17 \<and> e = Wire ErrTruncated"
    by (cases "length data < 17") (auto simp: ParseInit_short ParseInit_eq)
qed

end
