(* ===== verification/Device.thy ===== *)
theory Device
  imports Handshake
begin

text \<open>
  \<open>key.go\<close>: the transport interface, a key with its negotiated channel, \<open>Open\<close>, \<open>Ping\<close>,
  \<open>Wink\<close>, \<open>Close\<close> and \<open>roundTrip\<close>.  A transport is code of the caller's, so it is a record of
  functions on a state of the world \<open>'w\<close> that the model says nothing about; \<open>Receive\<close> is
  \<open>None\<close> where it blocks for ever, and the other three return.  The receive loop is a \<open>partial_function\<close>, because nothing in
  it bounds how often a key may say that it is still working.
\<close>

section \<open>Transport and Key\<close>

record 'w transport =
  tr_Send :: "bytes \<Rightarrow> 'w \<Rightarrow> ext_error option \<times> 'w"
  tr_Receive :: "'w \<Rightarrow> ((ext_error + bytes) \<times> 'w) option"
  tr_Name :: "'w \<Rightarrow> string"
  tr_Close :: "'w \<Rightarrow> ext_error option \<times> 'w"

record 'w key =
  k_t :: "'w transport option"
  k_channel :: u32
  k_version :: Version
  k_caps :: Capabilities

text \<open>A method call on \<open>k.t\<close>, which panics once \<open>Close\<close> has set it to nil.\<close>

definition with_transport :: "'w key \<Rightarrow> ('w transport \<Rightarrow> ('w, 'a) io) \<Rightarrow> ('w, 'a) io" where
  "with_transport k f = (case k_t k of None \<Rightarrow> failIO (Panic NilDereference) | Some T \<Rightarrow> f T)"

definition Key_Name :: "'w key \<Rightarrow> ('w, string) io" where
  "Key_Name k = with_transport k (\<lambda>T. readIO (tr_Name T))"

definition Key_Version :: "'w key \<Rightarrow> Version" where
  "Key_Version k = k_version k"

definition Key_Capabilities :: "'w key \<Rightarrow> Capabilities" where
  "Key_Capabilities k = k_caps k"

definition Key_Channel :: "'w key \<Rightarrow> u32" where
  "Key_Channel k = k_channel k"

definition Key_String :: "'w key \<Rightarrow> ('w, string) io" where
  "Key_String k = bindIO (Key_Name k) (\<lambda>name. retIO
     (name @ '' ('' @ Version_String (k_version k) @ '', '' @ Capabilities_String (k_caps k) @
      '') on channel '' @ fmt_hex 8 (unat (k_channel k))))"

text \<open>\<open>Close\<close> answers the transport's error, if any, and the key as it leaves it.\<close>

definition Key_Close :: "'w key \<Rightarrow> 'w \<Rightarrow> (ext_error option \<times> 'w key) \<times> 'w" where
  "Key_Close k w = (case k_t k of
     None \<Rightarrow> ((None, k), w)
   | Some T \<Rightarrow> let k = k\<lparr>k_t := None\<rparr>; (e, w1) = tr_Close T w in ((e, k), w1))"

section \<open>roundTrip\<close>

text \<open>\<open>for _, p := range packets \{ \<dots> k.t.Send(p) \<dots> \}\<close>\<close>

fun send_packets :: "'w transport \<Rightarrow> bytes list \<Rightarrow> ('w, unit) io" where
  "send_packets T [] w = Some (Inr (), w)"
| "send_packets T (p # ps) w = (case tr_Send T p w of
     (Some e, w1) \<Rightarrow> Some (Inl (Key (CannotSend (tr_Name T w1) e)), w1)
   | (None, w1) \<Rightarrow> send_packets T ps w1)"

text \<open>
  What the loop does with a report: go on with the reassembler as \<open>Feed\<close> left it (\<open>Inl\<close>), or
  return (\<open>Inr\<close>).
\<close>

definition handle_report ::
    "string \<Rightarrow> byte \<Rightarrow> reassembler \<Rightarrow> bytes \<Rightarrow> reassembler + bytes outcome" where
  "handle_report name cmd rc report = (case Feed rc report of
     (Inl e, rc1) \<Rightarrow> if e = Wire ErrWrongChannel then Inl rc1 else Inr (Inl e)
   | (Inr None, rc1) \<Rightarrow> Inl rc1
   | (Inr (Some msg), rc1) \<Rightarrow>
       if m_cmd msg = CmdKeepalive then Inl rc1
       else if IsError msg then
         let code = (if length (m_data msg) > 0 then m_data msg ! 0 else 0)
         in Inr (Inl (Key (RefusedRequest name code)))
       else if m_cmd msg \<noteq> cmd then Inr (Inl (Key (AnsweredCommand name (m_cmd msg) cmd)))
       else Inr (Inr (m_data msg)))"

partial_function (option) receive_loop ::
    "'w transport \<Rightarrow> byte \<Rightarrow> reassembler \<Rightarrow> 'w \<Rightarrow> (bytes outcome \<times> 'w) option" where
  "receive_loop T cmd rc w = (case tr_Receive T w of
     None \<Rightarrow> None
   | Some (Inl e, w1) \<Rightarrow> Some (Inl (Key (DidNotAnswer (tr_Name T w1) e)), w1)
   | Some (Inr report, w1) \<Rightarrow> (case handle_report (tr_Name T w1) cmd rc report of
       Inl rc1 \<Rightarrow> receive_loop T cmd rc1 w1
     | Inr result \<Rightarrow> Some (result, w1)))"

definition roundTrip :: "'w key \<Rightarrow> byte \<Rightarrow> bytes \<Rightarrow> ('w, bytes) io" where
  "roundTrip k cmd data =
     bindIO (liftIO (Split (k_channel k) cmd data)) (\<lambda>packets.
       with_transport k (\<lambda>T.
         bindIO (send_packets T packets) (\<lambda>_.
           receive_loop T cmd (NewReassembler (k_channel k)))))"

section \<open>Open, Ping, Wink\<close>

text \<open>\<open>k.Close(); return nil, err\<close>, which a panic does not reach.\<close>

definition close_and_fail :: "'w key \<Rightarrow> error \<Rightarrow> ('w, 'a) io" where
  "close_and_fail k e w =
     (case e of Panic _ \<Rightarrow> Some (Inl e, w) | _ \<Rightarrow> Some (Inl e, snd (Key_Close k w)))"

text \<open>
  \<open>randomNonce\<close> is the package's variable of that name: asked for \<open>n\<close> bytes it fills them or
  fails.
\<close>

definition Open ::
    "(nat \<Rightarrow> 'w \<Rightarrow> (ext_error + bytes) \<times> 'w) \<Rightarrow> 'w transport \<Rightarrow> ('w, 'w key) io" where
  "Open randomNonce t w =
     (let k = \<lparr>k_t = Some t, k_channel = BroadcastChannel, k_version = zero_version, k_caps = 0\<rparr>
      in case randomNonce 8 w of
        (Inl e, w1) \<Rightarrow> close_and_fail k (Key (CannotMakeNonce e)) w1
      | (Inr bs, w1) \<Rightarrow>
         let nonce = go_copy (make_bytes 8) bs
         in case roundTrip k CmdInit nonce w1 of
           None \<Rightarrow> None
         | Some (Inl e, w2) \<Rightarrow> close_and_fail k e w2
         | Some (Inr reply, w2) \<Rightarrow>
            (case wrapErr InitMalformed (ParseInit reply) of
               Inl e \<Rightarrow> close_and_fail k e w2
             | Inr init \<Rightarrow>
                 if ir_Nonce init \<noteq> nonce
                 then close_and_fail k (Key (AnotherInit (ir_Nonce init) nonce)) w2
                 else Some (Inr (k\<lparr>k_channel := ir_Channel init, k_version := ir_Version init,
                                   k_caps := ir_Caps init\<rparr>), w2)))"

definition Ping :: "'w key \<Rightarrow> bytes \<Rightarrow> ('w, bytes) io" where
  "Ping k data = roundTrip k CmdPing data"

definition Wink :: "'w key \<Rightarrow> ('w, unit) io" where
  "Wink k =
     (if \<not> Capabilities_Has (k_caps k) CapWink
      then bindIO (Key_Name k) (\<lambda>name. failIO (Key (CannotWink name)))
      else bindIO (roundTrip k CmdWink []) (\<lambda>_. retIO ()))"

section \<open>What passes between the program and a transport\<close>

datatype event = Sent bytes "ext_error option" | Received "ext_error + bytes"

inductive trace :: "'w transport \<Rightarrow> 'w \<Rightarrow> event list \<Rightarrow> 'w \<Rightarrow> bool" for T where
  quiet: "trace T w [] w"
| send: "tr_Send T p w = (e, w1) \<Longrightarrow> trace T w1 evs w2 \<Longrightarrow> trace T w (Sent p e # evs) w2"
| receive: "tr_Receive T w = Some (x, w1) \<Longrightarrow> trace T w1 evs w2 \<Longrightarrow> trace T w (Received x # evs) w2"

inductive_simps trace_Nil [simp]: "trace T w [] w2"
inductive_simps trace_Sent [simp]: "trace T w (Sent p e # evs) w2"
inductive_simps trace_Received [simp]: "trace T w (Received x # evs) w2"

lemma trace_append: "trace T w (xs @ ys) w2 \<longleftrightarrow> (\<exists>w1. trace T w xs w1 \<and> trace T w1 ys w2)"
proof (induction xs arbitrary: w)
  case (Cons x xs)
  then show ?case by (cases x) auto
qed simp

text \<open>The same events from the same state lead to the same state.\<close>

lemma trace_deterministic: "trace T w evs w1 \<Longrightarrow> trace T w evs w2 \<Longrightarrow> w1 = w2"
  by (induction rule: trace.induct) auto

abbreviation sent_all :: "bytes list \<Rightarrow> event list" where
  "sent_all ps \<equiv> map (\<lambda>p. Sent p None) ps"

abbreviation received_all :: "bytes list \<Rightarrow> event list" where
  "received_all rs \<equiv> map (\<lambda>r. Received (Inr r)) rs"

lemma send_packets_ok: "send_packets T ps w = Some (Inr (), w1) \<longleftrightarrow> trace T w (sent_all ps) w1"
  by (induction ps arbitrary: w) (auto split: prod.splits option.splits)

lemma send_packets_fail:
  "send_packets T ps w = Some (Inl e, w1) \<Longrightarrow>
     \<exists>qs p x rest. ps = qs @ p # rest \<and> trace T w (sent_all qs @ [Sent p (Some x)]) w1 \<and>
       e = Key (CannotSend (tr_Name T w1) x)"
proof (induction ps arbitrary: w)
  case (Cons p ps)
  obtain r w0 where r: "tr_Send T p w = (r, w0)" by fastforce
  show ?case
  proof (cases r)
    case None
    with Cons.prems r obtain qs q x rest where "ps = qs @ q # rest"
      "trace T w0 (sent_all qs @ [Sent q (Some x)]) w1" "e = Key (CannotSend (tr_Name T w1) x)"
      using Cons.IH [of w0] by auto
    with r None show ?thesis
      by (intro exI [of _ "p # qs"] exI [of _ q] exI [of _ x] exI [of _ rest]) auto
  next
    case (Some x)
    with Cons.prems r show ?thesis
      by (intro exI [of _ "[]"] exI [of _ p] exI [of _ x] exI [of _ ps]) auto
  qed
qed simp

lemma send_packets_total: "send_packets T ps w \<noteq> None"
  by (induction ps arbitrary: w) (auto split: prod.splits option.splits)

section \<open>The receive loop\<close>

text \<open>The answers of the reassembler after which the loop goes on.\<close>

fun goes_on :: "Message option outcome \<Rightarrow> bool" where
  "goes_on (Inl e) = (e = Wire ErrWrongChannel)"
| "goes_on (Inr None) = True"
| "goes_on (Inr (Some m)) = (m_cmd m = CmdKeepalive)"

text \<open>What it returns after any other.\<close>

fun verdict :: "string \<Rightarrow> byte \<Rightarrow> Message option outcome \<Rightarrow> bytes outcome" where
  "verdict name cmd (Inl e) = Inl e"
| "verdict name cmd (Inr None) = Inr []"
| "verdict name cmd (Inr (Some m)) =
     (if IsError m then Inl (Key (RefusedRequest name (case m_data m of [] \<Rightarrow> 0 | b # _ \<Rightarrow> b)))
      else if m_cmd m \<noteq> cmd then Inl (Key (AnsweredCommand name (m_cmd m) cmd))
      else Inr (m_data m))"

lemma handle_report_eq:
  "handle_report name cmd rc report =
     (if goes_on (fst (Feed rc report)) then Inl (snd (Feed rc report))
      else Inr (verdict name cmd (fst (Feed rc report))))"
  by (auto simp: handle_report_def Let_def split: prod.splits sum.splits option.splits list.splits)

definition patient :: "reassembler \<Rightarrow> bytes list \<Rightarrow> bool" where
  "patient rc rs \<longleftrightarrow> (\<forall>a \<in> set (fst (run_feed Feed rc rs)). goes_on a)"

lemma patient_simps [simp]:
  "patient rc []"
  "patient rc (r # rs) \<longleftrightarrow> goes_on (fst (Feed rc r)) \<and> patient (snd (Feed rc r)) rs"
  by (simp_all add: patient_def)

lemma receive_loop_skip:
  "trace T w (received_all rs) w1 \<Longrightarrow> patient rc rs \<Longrightarrow>
     receive_loop T cmd rc w = receive_loop T cmd (snd (run_feed Feed rc rs)) w1"
proof (induction rs arbitrary: w rc)
  case (Cons r rs)
  then obtain w0 where recv: "tr_Receive T w = Some (Inr r, w0)" and rest: "trace T w0 (received_all rs) w1"
    by auto
  from Cons.prems(2) recv have "receive_loop T cmd rc w = receive_loop T cmd (snd (Feed rc r)) w0"
    by (simp add: receive_loop.simps [of T cmd rc w] handle_report_eq)
  with Cons.IH [OF rest] Cons.prems(2) show ?case by simp
qed simp

lemma receive_loop_conclude:
  assumes "trace T w (received_all (rs @ [r])) w2" and "patient rc rs"
    and a: "a = fst (Feed (snd (run_feed Feed rc rs)) r)" and "\<not> goes_on a"
  shows "receive_loop T cmd rc w = Some (verdict (tr_Name T w2) cmd a, w2)"
proof -
  from assms(1) obtain w1 where run: "trace T w (received_all rs) w1"
    and recv: "tr_Receive T w1 = Some (Inr r, w2)"
    by (auto simp: trace_append)
  from receive_loop_skip [OF run assms(2), of cmd] recv assms(4) show ?thesis
    by (simp add: receive_loop.simps [of T cmd _ w1] handle_report_eq a)
qed

lemma receive_loop_no_answer:
  assumes "trace T w (received_all rs @ [Received (Inl e)]) w2" and "patient rc rs"
  shows "receive_loop T cmd rc w = Some (Inl (Key (DidNotAnswer (tr_Name T w2) e)), w2)"
proof -
  from assms(1) obtain w1 where run: "trace T w (received_all rs) w1"
    and recv: "tr_Receive T w1 = Some (Inl e, w2)"
    by (auto simp: trace_append)
  from receive_loop_skip [OF run assms(2), of cmd] recv show ?thesis
    by (simp add: receive_loop.simps [of T cmd _ w1])
qed

text \<open>How a call of the loop that returns has gone.\<close>

definition concluded ::
    "'w transport \<Rightarrow> byte \<Rightarrow> reassembler \<Rightarrow> 'w \<Rightarrow> bytes outcome \<Rightarrow> 'w \<Rightarrow> bool" where
  "concluded T cmd rc w res w2 \<longleftrightarrow>
     (\<exists>rs r a. trace T w (received_all (rs @ [r])) w2 \<and> patient rc rs \<and>
        a = fst (Feed (snd (run_feed Feed rc rs)) r) \<and> \<not> goes_on a \<and>
        res = verdict (tr_Name T w2) cmd a) \<or>
     (\<exists>rs e. trace T w (received_all rs @ [Received (Inl e)]) w2 \<and> patient rc rs \<and>
        res = Inl (Key (DidNotAnswer (tr_Name T w2) e)))"

lemma concluded_more:
  assumes "tr_Receive T w = Some (Inr r, w1)" and "goes_on (fst (Feed rc r))"
    and "concluded T cmd (snd (Feed rc r)) w1 res w2"
  shows "concluded T cmd rc w res w2"
proof -
  from assms(3) consider
      rs q where "trace T w1 (received_all (rs @ [q])) w2" "patient (snd (Feed rc r)) rs"
        "\<not> goes_on (fst (Feed (snd (run_feed Feed (snd (Feed rc r)) rs)) q))"
        "res = verdict (tr_Name T w2) cmd (fst (Feed (snd (run_feed Feed (snd (Feed rc r)) rs)) q))"
    | rs e where "trace T w1 (received_all rs @ [Received (Inl e)]) w2" "patient (snd (Feed rc r)) rs"
        "res = Inl (Key (DidNotAnswer (tr_Name T w2) e))"
    unfolding concluded_def by blast
  then show ?thesis
  proof cases
    case 1
    with assms(1,2) show ?thesis
      unfolding concluded_def by (intro disjI1 exI [of _ "r # rs"] exI [of _ q]) auto
  next
    case 2
    with assms(1,2) show ?thesis
      unfolding concluded_def by (intro disjI2 exI [of _ "r # rs"] exI [of _ e]) auto
  qed
qed

lemma receive_loop_concluded:
  assumes "receive_loop T cmd rc w = Some (res, w2)"
  shows "concluded T cmd rc w res w2"
proof -
  have "case y of (res, w2) \<Rightarrow> concluded T cmd rc w res w2" if "receive_loop T cmd rc w = Some y" for y
  proof (rule receive_loop.raw_induct [where P = "\<lambda>T cmd rc w y. case y of (res, w2) \<Rightarrow>
        concluded T cmd rc w res w2", OF _ that])
    fix loop and T :: "'a transport" and cmd rc w and y :: "bytes outcome \<times> 'a"
    assume IH: "\<And>T cmd rc w y. loop T cmd rc w = Some y \<Longrightarrow>
        (case y of (res, w2) \<Rightarrow> concluded T cmd rc w res w2)"
      and eq: "(case tr_Receive T w of None \<Rightarrow> None
        | Some (Inl e, w1) \<Rightarrow> Some (Inl (Key (DidNotAnswer (tr_Name T w1) e)), w1)
        | Some (Inr report, w1) \<Rightarrow> (case handle_report (tr_Name T w1) cmd rc report of
            Inl rc1 \<Rightarrow> loop T cmd rc1 w1 | Inr result \<Rightarrow> Some (result, w1))) = Some y"
    from eq consider
        e w1 where "tr_Receive T w = Some (Inl e, w1)" "y = (Inl (Key (DidNotAnswer (tr_Name T w1) e)), w1)"
      | r w1 where "tr_Receive T w = Some (Inr r, w1)" "goes_on (fst (Feed rc r))"
          "loop T cmd (snd (Feed rc r)) w1 = Some y"
      | r w1 where "tr_Receive T w = Some (Inr r, w1)" "\<not> goes_on (fst (Feed rc r))"
          "y = (verdict (tr_Name T w1) cmd (fst (Feed rc r)), w1)"
      by (auto simp: handle_report_eq split: option.splits prod.splits sum.splits if_splits)
    then show "case y of (res, w2) \<Rightarrow> concluded T cmd rc w res w2"
    proof cases
      case 1
      then show ?thesis
        unfolding concluded_def by (auto intro!: disjI2 exI [of _ "[]"])
    next
      case 2
      then show ?thesis using IH [OF 2(3)] by (auto intro: concluded_more)
    next
      case 3
      then show ?thesis
        unfolding concluded_def by (auto intro!: disjI1 exI [of _ "[]"] exI [of _ r])
    qed
  qed
  from this [OF assms] show ?thesis by simp
qed

lemma receive_loop_iff:
  "receive_loop T cmd rc w = Some (res, w2) \<longleftrightarrow> concluded T cmd rc w res w2"
proof
  assume "concluded T cmd rc w res w2"
  then show "receive_loop T cmd rc w = Some (res, w2)"
    unfolding concluded_def by (blast intro: receive_loop_conclude receive_loop_no_answer)
qed (rule receive_loop_concluded)

text \<open>
  Whoever waits long enough for an error of \<open>Receive\<close> is answered: the loop stops there at
  the latest.
\<close>

lemma receive_loop_returns:
  assumes "trace T w (received_all rs @ [Received (Inl e)]) w2"
  shows "\<exists>y. receive_loop T cmd rc w = Some y"
  using assms
proof (induction rs arbitrary: w rc)
  case Nil
  then show ?case by (auto simp: receive_loop.simps [of T cmd rc w])
next
  case (Cons r rs)
  then obtain w0 where "tr_Receive T w = Some (Inr r, w0)"
    and "trace T w0 (received_all rs @ [Received (Inl e)]) w2" by auto
  with Cons.IH show ?case
    by (auto simp: receive_loop.simps [of T cmd rc w] handle_report_eq)
qed

section \<open>The round trip as a conversation\<close>

text \<open>
  A key with an open transport sends all the reports of the message and then listens; what it
  returns is \<open>concluded\<close> from what it hears.
\<close>

lemma roundTrip_open:
  assumes "k_t k = Some T" and "length data \<le> MaxMessage"
  shows "roundTrip k cmd data w = bindIO (send_packets T (packets (k_channel k) cmd data))
    (\<lambda>_. receive_loop T cmd (NewReassembler (k_channel k))) w"
  using assms by (simp add: roundTrip_def Split_eq with_transport_def)

lemma send_packets_fails:
  "trace T w (sent_all qs @ [Sent p (Some x)]) w1 \<Longrightarrow>
     send_packets T (qs @ p # rest) w = Some (Inl (Key (CannotSend (tr_Name T w1) x)), w1)"
  by (induction qs arbitrary: w) auto

lemma roundTrip_too_long:
  "length data > MaxMessage \<Longrightarrow> roundTrip k cmd data w = Some (Inl (Wire ErrTooLong), w)"
  by (simp add: roundTrip_def Split_eq)

lemma roundTrip_closed:
  "k_t k = None \<Longrightarrow> length data \<le> MaxMessage \<Longrightarrow>
     roundTrip k cmd data w = Some (Inl (Panic NilDereference), w)"
  by (simp add: roundTrip_def Split_eq with_transport_def)

lemma roundTrip_sent:
  assumes "k_t k = Some T" and "length data \<le> MaxMessage"
    and "trace T w (sent_all (packets (k_channel k) cmd data)) w1"
  shows "roundTrip k cmd data w = receive_loop T cmd (NewReassembler (k_channel k)) w1"
  using assms by (simp add: roundTrip_open send_packets_ok [symmetric])

text \<open>
  Every end of a round trip, with what passed before it.
\<close>

lemma roundTrip_cases:
  assumes "roundTrip k cmd data w = Some (res, w2)"
  obtains (too_long) "length data > MaxMessage" "res = Inl (Wire ErrTooLong)" "w2 = w"
    | (closed) "length data \<le> MaxMessage" "k_t k = None" "res = Inl (Panic NilDereference)" "w2 = w"
    | (cannot_send) T qs p x rest where "length data \<le> MaxMessage" "k_t k = Some T"
        "packets (k_channel k) cmd data = qs @ p # rest"
        "trace T w (sent_all qs @ [Sent p (Some x)]) w2"
        "res = Inl (Key (CannotSend (tr_Name T w2) x))"
    | (heard) T w1 where "length data \<le> MaxMessage" "k_t k = Some T"
        "trace T w (sent_all (packets (k_channel k) cmd data)) w1"
        "concluded T cmd (NewReassembler (k_channel k)) w1 res w2"
proof (cases "length data > MaxMessage")
  case True
  with assms show ?thesis by (auto simp: roundTrip_too_long intro: too_long)
next
  case fits: False
  then have len: "length data \<le> MaxMessage" by simp
  show ?thesis
  proof (cases "k_t k")
    case None
    with assms len show ?thesis by (auto simp: roundTrip_closed intro: closed)
  next
    case (Some T)
    let ?ps = "packets (k_channel k) cmd data"
    obtain r w1 where send: "send_packets T ?ps w = Some (r, w1)"
      using send_packets_total [of T ?ps w] by auto
    show ?thesis
    proof (cases r)
      case (Inl e)
      with send assms len Some show ?thesis
        using send_packets_fail [of T ?ps w e w1] by (auto simp: roundTrip_open intro: cannot_send)
    next
      case (Inr u)
      with send have "trace T w (sent_all ?ps) w1"
        by (simp add: send_packets_ok)
      with assms len Some show ?thesis
        by (auto simp: roundTrip_sent receive_loop_iff intro: heard)
    qed
  qed
qed

text \<open>
  The same as a relation between a request and how it ends, in terms of what passes on the wire
  and of nothing the code does: the contract of \<open>roundTrip\<close>.
\<close>

definition conversation :: "'w key \<Rightarrow> byte \<Rightarrow> bytes \<Rightarrow> 'w \<Rightarrow> bytes outcome \<Rightarrow> 'w \<Rightarrow> bool" where
  "conversation k cmd data w res w2 \<longleftrightarrow>
     (if MaxMessage < length data then res = Inl (Wire ErrTooLong) \<and> w2 = w
      else case k_t k of
        None \<Rightarrow> res = Inl (Panic NilDereference) \<and> w2 = w
      | Some T \<Rightarrow>
          (\<exists>qs p x rest. packets (k_channel k) cmd data = qs @ p # rest \<and>
             trace T w (sent_all qs @ [Sent p (Some x)]) w2 \<and>
             res = Inl (Key (CannotSend (tr_Name T w2) x))) \<or>
          (\<exists>w1. trace T w (sent_all (packets (k_channel k) cmd data)) w1 \<and>
             concluded T cmd (NewReassembler (k_channel k)) w1 res w2))"

lemma roundTrip_conversation:
  "roundTrip k cmd data w = Some (res, w2) \<longleftrightarrow> conversation k cmd data w res w2"
proof
  assume "roundTrip k cmd data w = Some (res, w2)"
  then show "conversation k cmd data w res w2"
    by (cases rule: roundTrip_cases) (auto simp: conversation_def not_less)
next
  assume conv: "conversation k cmd data w res w2"
  show "roundTrip k cmd data w = Some (res, w2)"
  proof (cases "length data \<le> MaxMessage")
    case False
    with conv show ?thesis by (simp add: conversation_def roundTrip_too_long)
  next
    case len: True
    show ?thesis
    proof (cases "k_t k")
      case None
      with conv len show ?thesis by (simp add: conversation_def roundTrip_closed)
    next
      case (Some T)
      with conv len consider
          qs p x rest where "packets (k_channel k) cmd data = qs @ p # rest"
            "trace T w (sent_all qs @ [Sent p (Some x)]) w2" "res = Inl (Key (CannotSend (tr_Name T w2) x))"
        | w1 where "trace T w (sent_all (packets (k_channel k) cmd data)) w1"
            "concluded T cmd (NewReassembler (k_channel k)) w1 res w2"
        by (auto simp: conversation_def)
      then show ?thesis
      proof cases
        case 1
        then show ?thesis using roundTrip_open [OF Some len] send_packets_fails [OF 1(2)] by simp
      next
        case 2
        then show ?thesis using roundTrip_sent [OF Some len 2(1)] by (simp add: receive_loop_iff)
      qed
    qed
  qed
qed

text \<open>What the program's own errors leave: no call on an open transport panics.\<close>

lemma verdict_error:
  assumes "verdict name cmd a = Inl e" and "a = fst (Feed rc r)" and "\<not> goes_on a"
  shows "e \<in> {Wire ErrShortPacket, Wire ErrOutOfOrder} \<or>
    (\<exists>code. e = Key (RefusedRequest name code)) \<or>
    (\<exists>got. got \<noteq> cmd \<and> e = Key (AnsweredCommand name got cmd))"
proof (cases a rule: goes_on.cases)
  case (1 x)
  then have "e = x" using assms(1) by simp
  with 1 assms(2,3) Feed_error_cases [of rc r e] show ?thesis by auto
next
  case 2
  with assms(3) show ?thesis by simp
next
  case (3 m)
  with assms(1) show ?thesis by (auto split: if_splits)
qed

lemma verdict_answer:
  assumes "verdict name cmd a = Inr d" and "\<not> goes_on a"
  shows "\<exists>m. a = Inr (Some m) \<and> m_data m = d \<and> m_cmd m = cmd \<and> cmd \<noteq> CmdKeepalive \<and> cmd \<noteq> CmdError"
  using assms by (cases "(name, cmd, a)" rule: verdict.cases) (auto simp: IsError_def split: if_splits)

lemma goes_on_cases:
  "goes_on a \<longleftrightarrow> a = Inl (Wire ErrWrongChannel) \<or> a = Inr None \<or>
     (\<exists>m. a = Inr (Some m) \<and> m_cmd m = CmdKeepalive)"
  by (cases a rule: goes_on.cases) auto

lemma run_feed_new_inv:
  "rc_inv (snd (run_feed Feed (NewReassembler ch) rs)) \<and>
   rc_channel (snd (run_feed Feed (NewReassembler ch) rs)) = ch"
proof -
  have "rc_inv (snd (run_feed Feed (NewReassembler ch) rs))"
    by (rule run_feed_invariant [of rc_inv]) (auto intro: Feed_inv rc_inv_New)
  moreover have "rc_channel (snd (run_feed Feed (NewReassembler ch) rs)) = ch"
    by (rule ctaphid.own_run) (simp add: NewReassembler_def)
  ultimately show ?thesis by blast
qed

text \<open>What \<open>roundTrip\<close> returns, with the message it was in.\<close>

lemma roundTrip_answer:
  assumes "roundTrip k cmd data w = Some (Inr d, w2)"
  obtains T ps rs r where "k_t k = Some T" and "Split (k_channel k) cmd data = Inr ps"
    and "trace T w (sent_all ps @ received_all (rs @ [r])) w2"
    and "patient (NewReassembler (k_channel k)) rs"
    and "fst (Feed (snd (run_feed Feed (NewReassembler (k_channel k)) rs)) r) =
           Inr (Some \<lparr>m_channel = k_channel k, m_cmd = cmd, m_data = d\<rparr>)"
    and "cmd \<noteq> CmdKeepalive" and "cmd \<noteq> CmdError"
  using assms
proof (cases rule: roundTrip_cases)
  case (heard T w1)
  from heard(4) obtain rs r where tr: "trace T w1 (received_all (rs @ [r])) w2"
    and pat: "patient (NewReassembler (k_channel k)) rs"
    and stop: "\<not> goes_on (fst (Feed (snd (run_feed Feed (NewReassembler (k_channel k)) rs)) r))"
    and res: "verdict (tr_Name T w2) cmd
        (fst (Feed (snd (run_feed Feed (NewReassembler (k_channel k)) rs)) r)) = Inr d"
    unfolding concluded_def by auto
  let ?rc = "snd (run_feed Feed (NewReassembler (k_channel k)) rs)"
  from verdict_answer [OF res stop] obtain m where m: "fst (Feed ?rc r) = Inr (Some m)"
    "m_data m = d" "m_cmd m = cmd" "cmd \<noteq> CmdKeepalive" "cmd \<noteq> CmdError" by blast
  then have "Feed ?rc r = (Inr (Some m), snd (Feed ?rc r))" by (simp add: prod_eq_iff)
  then have "m_channel m = k_channel k"
    using Feed_delivers [of ?rc r m] run_feed_new_inv [of "k_channel k" rs] by auto
  with m(2,3) have "m = \<lparr>m_channel = k_channel k, m_cmd = cmd, m_data = d\<rparr>" by simp
  with heard tr pat m show ?thesis
    by (intro that [of T "packets (k_channel k) cmd data" rs r]) (auto simp: Split_Inr trace_append)
qed auto

section \<open>A scripted transport\<close>

text \<open>
  A transport to try things on, in the manner of the tests' \<open>fakeTransport\<close>: a world is the
  reports still to be received, each \<open>Receive\<close> takes the next, an empty inbox is the context's
  end, and the number of calls of \<open>Close\<close> is counted.
\<close>

record scripted =
  s_inbox :: "bytes list"
  s_sent :: "bytes list"
  s_closed :: nat

definition scripted :: "scripted transport" where
  "scripted =
     \<lparr>tr_Send = (\<lambda>p w. (None, w\<lparr>s_sent := s_sent w @ [p]\<rparr>)),
      tr_Receive = (\<lambda>w. Some (case s_inbox w of
         [] \<Rightarrow> (Inl ''context deadline exceeded'', w)
       | r # rs \<Rightarrow> (Inr r, w\<lparr>s_inbox := rs\<rparr>))),
      tr_Name = (\<lambda>w. ''Test Key''),
      tr_Close = (\<lambda>w. (None, w\<lparr>s_closed := Suc (s_closed w)\<rparr>))\<rparr>"

definition script :: "bytes list \<Rightarrow> scripted" where
  "script rs = \<lparr>s_inbox = rs, s_sent = [], s_closed = 0\<rparr>"

definition scripted_key :: "u32 \<Rightarrow> Capabilities \<Rightarrow> scripted key" where
  "scripted_key ch caps = \<lparr>k_t = Some scripted, k_channel = ch, k_version = zero_version, k_caps = caps\<rparr>"

lemma scripted_fields [simp]:
  "tr_Send scripted p w = (None, w\<lparr>s_sent := s_sent w @ [p]\<rparr>)"
  "tr_Receive scripted w = Some (case s_inbox w of
         [] \<Rightarrow> (Inl ''context deadline exceeded'', w)
       | r # rs \<Rightarrow> (Inr r, w\<lparr>s_inbox := rs\<rparr>))"
  "tr_Name scripted w = ''Test Key''"
  "tr_Close scripted w = (None, w\<lparr>s_closed := Suc (s_closed w)\<rparr>)"
  by (simp_all add: scripted_def)

lemma scripted_sends: "trace scripted w (sent_all ps) (w\<lparr>s_sent := s_sent w @ ps\<rparr>)"
proof (induction ps arbitrary: w)
  case (Cons p ps)
  then show ?case using Cons.IH [of "w\<lparr>s_sent := s_sent w @ [p]\<rparr>"] by simp
qed simp

lemma scripted_receives:
  "s_inbox w = rs @ rest \<Longrightarrow> trace scripted w (received_all rs) (w\<lparr>s_inbox := rest\<rparr>)"
proof (induction rs arbitrary: w)
  case (Cons r rs)
  then show ?case using Cons.IH [of "w\<lparr>s_inbox := rs @ rest\<rparr>"] by simp
qed simp

lemma script_conversation:
  "trace scripted (script (rs @ rest)) (sent_all ps @ received_all rs)
     \<lparr>s_inbox = rest, s_sent = ps, s_closed = 0\<rparr>"
  unfolding trace_append
  using scripted_sends [of "script (rs @ rest)" ps]
    scripted_receives [of "\<lparr>s_inbox = rs @ rest, s_sent = ps, s_closed = 0\<rparr>" rs rest]
  by (auto simp: script_def intro!: exI)

lemma scripted_key_simps [simp]:
  "k_t (scripted_key ch caps) = Some scripted"
  "k_channel (scripted_key ch caps) = ch"
  "k_caps (scripted_key ch caps) = caps"
  by (simp_all add: scripted_key_def)

lemma roundTrip_hears:
  assumes "k_t k = Some T" and "k_channel k = ch" and "Split ch cmd data = Inr ps"
    and "trace T w (sent_all ps @ received_all (rs @ [r])) w2"
    and "filter (\<lambda>p. \<not> foreign_to ch p) (rs @ [r]) = concat (map reports_of busy) @ reports_of m"
    and "\<not> foreign_to ch r"
    and "\<forall>b \<in> set busy. sendable ch b \<and> m_cmd b = CmdKeepalive"
    and "sendable ch m" and "m_cmd m \<noteq> CmdKeepalive"
  shows "roundTrip k cmd data w = Some
    (if m_cmd m = CmdError
     then Inl (Key (RefusedRequest (tr_Name T w2) (case m_data m of [] \<Rightarrow> 0 | code # _ \<Rightarrow> code)))
     else if m_cmd m \<noteq> cmd then Inl (Key (AnsweredCommand (tr_Name T w2) (m_cmd m) cmd))
     else Inr (m_data m), w2)"
proof -
  let ?rc = "NewReassembler ch"
  have own: "rc_channel ?rc = ch" by (simp add: NewReassembler_def)
  have busy: "\<forall>b \<in> set busy. sendable ch b" using assms(7) by blast
  note heard = ctaphid.interleaved_until [OF own busy assms(8,6,5)]
  from assms(3) have len: "length data \<le> MaxMessage" and ps: "ps = packets ch cmd data"
    by (simp_all add: Split_Inr)
  from assms(4) obtain w1 where sent: "trace T w (sent_all ps) w1"
    and recv: "trace T w1 (received_all (rs @ [r])) w2"
    by (auto simp: trace_append)
  have pat: "patient ?rc rs"
    unfolding patient_def goes_on_cases using heard(2) assms(7) by blast
  have stop: "\<not> goes_on (Inr (Some m))" using assms(9) by simp
  have "roundTrip k cmd data w = receive_loop T cmd ?rc w1"
    using roundTrip_sent [OF assms(1) len, of w cmd w1] sent assms(2) ps by simp
  also have "\<dots> = Some (verdict (tr_Name T w2) cmd (Inr (Some m)), w2)"
    by (rule receive_loop_conclude [OF recv pat heard(1) [symmetric] stop])
  finally show ?thesis by (simp add: IsError_def)
qed

text \<open>The plain case: the reply is all that arrives.\<close>

definition plain_command :: "byte \<Rightarrow> bool" where
  "plain_command cmd \<longleftrightarrow> cmd AND NOT 0x80 = cmd \<and> cmd \<noteq> CmdKeepalive \<and> cmd \<noteq> CmdError"

lemma plain_commands [simp]:
  "plain_command CmdPing" "plain_command CmdInit" "plain_command CmdWink" "plain_command CmdCBOR"
  by (simp_all add: plain_command_def cmd_defs)

lemma packets_last_own: "\<not> foreign_to ch (last (packets ch cmd data))"
  using packets_channel [of "last (packets ch cmd data)" ch cmd data]
  by (simp add: foreign_to_def packets_def)

lemma roundTrip_replies:
  assumes "k_t k = Some T" and "k_channel k = ch" and "length data \<le> MaxMessage"
    and "plain_command cmd" and "length reply \<le> MaxMessage"
    and "trace T w (sent_all (packets ch cmd data) @ received_all (packets ch cmd reply)) w2"
  shows "roundTrip k cmd data w = Some (Inr reply, w2)"
proof -
  let ?m = "\<lparr>m_channel = ch, m_cmd = cmd, m_data = reply\<rparr>"
  have m: "sendable ch ?m" using assms(4,5) by (simp add: sendable_def plain_command_def)
  obtain rs r where rs: "packets ch cmd reply = rs @ [r]"
    by (metis packets_def list.distinct(1) rev_exhaust)
  have "filter (\<lambda>p. \<not> foreign_to ch p) (rs @ [r]) = rs @ [r]"
    using packets_channel [of _ ch cmd reply] by (intro filter_True) (auto simp: foreign_to_def rs)
  also have "\<dots> = concat (map reports_of []) @ reports_of ?m"
    using reports_of_sendable [OF m] rs by simp
  finally have heard: "filter (\<lambda>p. \<not> foreign_to ch p) (rs @ [r]) =
      concat (map reports_of []) @ reports_of ?m" .
  have own: "\<not> foreign_to ch r"
    using packets_last_own [of ch cmd reply] by (simp add: rs)
  have split: "Split ch cmd data = Inr (packets ch cmd data)"
    using assms(3) by (simp add: Split_eq)
  show ?thesis
    using roundTrip_hears [OF assms(1,2) split assms(6) [unfolded rs] heard own _ m] assms(4)
    by (simp add: plain_command_def)
qed

lemma scripted_exchange:
  assumes "length data \<le> MaxMessage" and "plain_command cmd" and "length reply \<le> MaxMessage"
  shows "roundTrip (scripted_key ch caps) cmd data (script (packets ch cmd reply @ rest)) =
    Some (Inr reply, \<lparr>s_inbox = rest, s_sent = packets ch cmd data, s_closed = 0\<rparr>)"
  by (rule roundTrip_replies [OF _ _ assms script_conversation]) simp_all

section \<open>How calls end\<close>

lemma roundTrip_error:
  assumes "roundTrip k cmd data w = Some (Inl e, w2)" and "k_t k = Some T"
  shows "e \<in> {Wire ErrTooLong, Wire ErrShortPacket, Wire ErrOutOfOrder} \<or>
    (\<exists>x. e = Key (CannotSend (tr_Name T w2) x)) \<or>
    (\<exists>x. e = Key (DidNotAnswer (tr_Name T w2) x)) \<or>
    (\<exists>code. e = Key (RefusedRequest (tr_Name T w2) code)) \<or>
    (\<exists>got. got \<noteq> cmd \<and> e = Key (AnsweredCommand (tr_Name T w2) got cmd))"
  using assms(1)
proof (cases rule: roundTrip_cases)
  case (heard T' w1)
  with assms(2) have T': "T' = T" by simp
  from heard(4) consider
      rs r where "\<not> goes_on (fst (Feed (snd (run_feed Feed (NewReassembler (k_channel k)) rs)) r))"
        "verdict (tr_Name T w2) cmd
          (fst (Feed (snd (run_feed Feed (NewReassembler (k_channel k)) rs)) r)) = Inl e"
    | x where "e = Key (DidNotAnswer (tr_Name T w2) x)"
    unfolding concluded_def T' by auto
  then show ?thesis
  proof cases
    case 1
    from verdict_error [OF 1(2) refl 1(1)] show ?thesis by blast
  qed blast
qed (use assms in auto)

lemma roundTrip_no_panic:
  assumes "roundTrip k cmd data w = Some (Inl e, w2)" and "k_t k = Some T"
  shows "e \<noteq> Panic p"
  using roundTrip_error [OF assms] by auto

lemma roundTrip_returns_aux:
  assumes "k_t k = Some T"
    and "\<And>w1. trace T w (sent_all (packets (k_channel k) cmd data)) w1 \<Longrightarrow>
      \<exists>rs e w2. trace T w1 (received_all rs @ [Received (Inl e)]) w2"
  shows "\<exists>y. roundTrip k cmd data w = Some y"
proof (cases "length data \<le> MaxMessage")
  case True
  let ?ps = "packets (k_channel k) cmd data"
  obtain r w1 where send: "send_packets T ?ps w = Some (r, w1)"
    using send_packets_total [of T ?ps w] by auto
  show ?thesis
  proof (cases r)
    case (Inl e)
    with send True assms(1) show ?thesis by (simp add: roundTrip_open)
  next
    case (Inr u)
    with send have "trace T w (sent_all ?ps) w1" by (simp add: send_packets_ok)
    from assms(2) [OF this] obtain rs e w2 where
      "trace T w1 (received_all rs @ [Received (Inl e)]) w2" by blast
    from receive_loop_returns [OF this, of cmd "NewReassembler (k_channel k)"]
      \<open>trace T w (sent_all ?ps) w1\<close> show ?thesis
      by (simp add: roundTrip_sent [OF assms(1) True])
  qed
qed (simp add: roundTrip_too_long)

text \<open>The conversation that ends without the transport having been closed.\<close>

lemma roundTrip_trace:
  assumes "roundTrip k cmd data w = Some (res, w2)" and "k_t k = Some T"
  shows "\<exists>evs. trace T w evs w2"
  using assms(1)
proof (cases rule: roundTrip_cases)
  case (heard T' w1)
  with assms(2) have T: "T' = T" by simp
  from heard(4) obtain evs where "trace T w1 evs w2"
    unfolding concluded_def T by blast
  with heard(3) show ?thesis unfolding T by (blast intro: trace_append [THEN iffD2])
next
  case (cannot_send T' qs p x rest)
  with assms(2) show ?thesis by auto
qed (auto intro: trace.quiet)

lemma ParseInit_error: "ParseInit data = Inl e \<longleftrightarrow> length data < 17 \<and> e = Wire ErrTruncated"
  by (cases "length data < 17") (auto simp: ParseInit_short ParseInit_eq)

lemma close_and_fail_simp:
  "k_t k = Some T \<Longrightarrow> \<forall>p. e \<noteq> Panic p \<Longrightarrow>
     close_and_fail k e w = Some (Inl e, snd (tr_Close T w))"
  by (cases e) (simp_all add: close_and_fail_def Key_Close_def split_beta)

text \<open>How a call of \<open>Open\<close> that returns has gone.\<close>

lemma Open_cases:
  assumes "Open randomNonce t w = Some (r, w2)"
  obtains (failed) e w1 evs where "r = Inl e" "\<forall>p. e \<noteq> Panic p" "trace t (snd (randomNonce 8 w)) evs w1"
        "w2 = snd (tr_Close t w1)"
    | (opened) bs reply init where "fst (randomNonce 8 w) = Inr bs"
        "roundTrip \<lparr>k_t = Some t, k_channel = BroadcastChannel, k_version = zero_version, k_caps = 0\<rparr>
           CmdInit (go_copy (make_bytes 8) bs) (snd (randomNonce 8 w)) = Some (Inr reply, w2)"
        "ParseInit reply = Inr init" "ir_Nonce init = go_copy (make_bytes 8) bs"
        "r = Inr \<lparr>k_t = Some t, k_channel = ir_Channel init, k_version = ir_Version init,
                   k_caps = ir_Caps init\<rparr>"
proof -
  let ?k = "\<lparr>k_t = Some t, k_channel = BroadcastChannel, k_version = zero_version, k_caps = 0\<rparr>"
  have k: "k_t ?k = Some t" by simp
  obtain src w1 where src: "randomNonce 8 w = (src, w1)" by fastforce
  show ?thesis
  proof (cases src)
    case (Inl e)
    with assms src show ?thesis
      by (intro failed [of "Key (CannotMakeNonce e)" "[]" w1])
         (auto simp: Open_def close_and_fail_simp [OF k])
  next
    case (Inr bs)
    let ?nonce = "go_copy (make_bytes 8) bs"
    have "roundTrip ?k CmdInit ?nonce w1 \<noteq> None"
    proof
      assume "roundTrip ?k CmdInit ?nonce w1 = None"
      with assms src Inr show False by (simp add: Open_def)
    qed
    then obtain res w3 where rt: "roundTrip ?k CmdInit ?nonce w1 = Some (res, w3)"
      by auto
    obtain evs where evs: "trace t w1 evs w3"
      using roundTrip_trace [OF rt k] by blast
    show ?thesis
    proof (cases res)
      case (Inl e)
      with assms src Inr rt evs roundTrip_no_panic [OF rt [unfolded Inl] k] show ?thesis
        by (intro failed [of e evs w3]) (auto simp: Open_def close_and_fail_simp [OF k])
    next
      case reply: (Inr reply)
      show ?thesis
      proof (cases "ParseInit reply")
        case (Inl e)
        with assms src Inr rt evs reply show ?thesis
          by (intro failed [of "InitMalformed e" evs w3])
             (auto simp: Open_def close_and_fail_simp [OF k] ParseInit_error)
      next
        case init: (Inr init)
        show ?thesis
        proof (cases "ir_Nonce init = ?nonce")
          case False
          with assms src Inr rt evs reply init show ?thesis
            by (intro failed [of "Key (AnotherInit (ir_Nonce init) ?nonce)" evs w3])
               (auto simp: Open_def close_and_fail_simp [OF k])
        next
          case True
          with assms src Inr rt evs reply init show ?thesis
            by (intro opened [of bs reply init]) (auto simp: Open_def)
        qed
      qed
    qed
  qed
qed

section \<open>Properties\<close>

text \<open>
  C7. What \<open>roundTrip\<close> returns is the key's answer to the request.  If it returns bytes, then it
  sent exactly the reports of the request, in order, and then listened; the bytes are the whole
  payload of a message the key sent afterwards on this key's channel and under the request's own
  command; and everything heard before it was foreign traffic, an incomplete message or a
  keepalive.  A keepalive or an error message is never returned as an answer.
\<close>

theorem roundTrip_returns_the_answer:
  assumes "roundTrip k cmd data w = Some (Inr d, w2)"
  shows "\<exists>T ps rs r. k_t k = Some T \<and> Split (k_channel k) cmd data = Inr ps \<and>
    trace T w (sent_all ps @ received_all (rs @ [r])) w2 \<and>
    fst (Feed (snd (run_feed Feed (NewReassembler (k_channel k)) rs)) r) =
      Inr (Some \<lparr>m_channel = k_channel k, m_cmd = cmd, m_data = d\<rparr>) \<and>
    cmd \<noteq> CmdKeepalive \<and> cmd \<noteq> CmdError \<and>
    (\<forall>a \<in> set (fst (run_feed Feed (NewReassembler (k_channel k)) rs)).
       a = Inl (Wire ErrWrongChannel) \<or> a = Inr None \<or>
       (\<exists>m. a = Inr (Some m) \<and> m_cmd m = CmdKeepalive))"
proof -
  from assms obtain T ps rs r where "k_t k = Some T" "Split (k_channel k) cmd data = Inr ps"
    "trace T w (sent_all ps @ received_all (rs @ [r])) w2"
    "patient (NewReassembler (k_channel k)) rs"
    "fst (Feed (snd (run_feed Feed (NewReassembler (k_channel k)) rs)) r) =
       Inr (Some \<lparr>m_channel = k_channel k, m_cmd = cmd, m_data = d\<rparr>)"
    "cmd \<noteq> CmdKeepalive" "cmd \<noteq> CmdError"
    by (rule roundTrip_answer)
  then show ?thesis
    unfolding patient_def goes_on_cases by blast
qed

theorem roundTrip_returns_the_answer_witness:
  "\<exists>rs r. trace scripted (script [init_packet 5 CmdPing [7]])
      (sent_all [init_packet 5 CmdPing [7]] @ received_all (rs @ [r]))
      \<lparr>s_inbox = [], s_sent = [init_packet 5 CmdPing [7]], s_closed = 0\<rparr>"
proof -
  have ps: "packets 5 CmdPing [7] = [init_packet 5 CmdPing [7]]"
    by (simp add: packets_def)
  have run: "roundTrip (scripted_key 5 0) CmdPing [7] (script [init_packet 5 CmdPing [7]]) =
      Some (Inr [7], \<lparr>s_inbox = [], s_sent = [init_packet 5 CmdPing [7]], s_closed = 0\<rparr>)"
    using scripted_exchange [of "[7]" CmdPing "[7]" 5 0 "[]"] by (simp add: ps wire_simps)
  show ?thesis
    using roundTrip_returns_the_answer [OF run] by (auto simp: Split_eq wire_simps ps)
qed

text \<open>
  C17. Conversely, a key that answers is heard, through any noise.  Let the request's reports be
  sent, and let what arrives be, once other channels' reports are left out, any number of
  keepalives and then a whole message that is not one, the last report being that message's.
  Then \<open>roundTrip\<close> returns with that report: the payload when the message carries the request's
  command, the refusal with its code when it is a CTAPHID error, and the refusal of a message
  under any other command.
\<close>

theorem roundTrip_hears_the_answer:
  assumes "k_t k = Some T" and "k_channel k = ch" and "Split ch cmd data = Inr ps"
    and "trace T w (sent_all ps @ received_all (rs @ [r])) w2"
    and "filter (\<lambda>p. \<not> foreign_to ch p) (rs @ [r]) = concat (map reports_of busy) @ reports_of m"
    and "\<not> foreign_to ch r"
    and "\<forall>b \<in> set busy. sendable ch b \<and> m_cmd b = CmdKeepalive"
    and "sendable ch m" and "m_cmd m \<noteq> CmdKeepalive"
  shows "roundTrip k cmd data w = Some
    (if m_cmd m = CmdError
     then Inl (Key (RefusedRequest (tr_Name T w2) (case m_data m of [] \<Rightarrow> 0 | code # _ \<Rightarrow> code)))
     else if m_cmd m \<noteq> cmd then Inl (Key (AnsweredCommand (tr_Name T w2) (m_cmd m) cmd))
     else Inr (m_data m), w2)"
  by (rule roundTrip_hears [OF assms])

theorem roundTrip_hears_the_answer_witness:
  "roundTrip (scripted_key 5 0) CmdPing [7]
     (script [init_packet 9 CmdPing [1], init_packet 5 CmdKeepalive [2], init_packet 5 CmdPing [7]]) =
   Some (Inr [7], \<lparr>s_inbox = [], s_sent = [init_packet 5 CmdPing [7]], s_closed = 0\<rparr>)"
proof -
  let ?rs = "[init_packet 9 CmdPing [1], init_packet 5 CmdKeepalive [2]]"
  let ?r = "init_packet 5 CmdPing [7]"
  let ?busy = "[\<lparr>m_channel = 5, m_cmd = CmdKeepalive, m_data = [2]\<rparr>]"
  let ?m = "\<lparr>m_channel = 5, m_cmd = CmdPing, m_data = [7]\<rparr>"
  have sendable: "sendable 5 ?m" "sendable 5 (hd ?busy)"
    by (simp_all add: sendable_def CmdPing_def CmdKeepalive_def wire_simps)
  have "Split 5 CmdPing [7] = Inr [?r]"
    by (simp add: Split_eq wire_simps packets_def)
  moreover have "filter (\<lambda>p. \<not> foreign_to 5 p) (?rs @ [?r]) =
      concat (map reports_of ?busy) @ reports_of ?m"
    using sendable by (simp add: reports_of_sendable packets_def foreign_to_def init_packet_eq
        be32.put_inject)
  moreover have "\<not> foreign_to 5 ?r"
    by (simp add: foreign_to_def init_packet_eq)
  ultimately show ?thesis
    using roundTrip_hears_the_answer [OF _ _ _ script_conversation [of "?rs @ [?r]" "[]" "[?r]"
          , simplified append_Nil2], of "scripted_key 5 0" 5 CmdPing "[7]" ?busy ?m] sendable
    by (simp add: CmdPing_def CmdKeepalive_def CmdError_def)
qed

text \<open>
  C34. The only bound on a round trip is the transport's: if, whenever the reports have gone out,
  some later \<open>Receive\<close> fails -- the context ends, the device goes away -- then \<open>roundTrip\<close>
  returns, whatever the key sent until then.
\<close>

theorem roundTrip_returns:
  assumes "k_t k = Some T"
    and "\<And>w1. trace T w (sent_all (packets (k_channel k) cmd data)) w1 \<Longrightarrow>
      \<exists>rs e w2. trace T w1 (received_all rs @ [Received (Inl e)]) w2"
  shows "\<exists>y. roundTrip k cmd data w = Some y"
  by (rule roundTrip_returns_aux [OF assms])

theorem roundTrip_returns_witness:
  "\<exists>y. roundTrip (scripted_key 5 0) CmdPing [7] (script [[1, 2], [3]]) = Some y"
proof (rule roundTrip_returns [of _ scripted])
  fix w1
  assume "trace scripted (script [[1, 2], [3]])
      (sent_all (packets (k_channel (scripted_key 5 0)) CmdPing [7])) w1"
  then have "w1 = (script [[1, 2], [3]])\<lparr>s_sent := s_sent (script [[1, 2], [3]]) @
      packets (k_channel (scripted_key 5 0)) CmdPing [7]\<rparr>"
    using scripted_sends by (rule trace_deterministic)
  then show "\<exists>rs e w2. trace scripted w1 (received_all rs @ [Received (Inl e)]) w2"
    by (intro exI [of _ "[[1, 2], [3]]"]) (auto simp: script_def)
qed simp

text \<open>
  C37. And without such a bound there is none: under a context that never ends, a key that only
  ever says it is still working is waited for without end.
\<close>

theorem keepalives_are_waited_out:
  assumes "k_t k = Some T" and "length data \<le> MaxMessage"
    and "trace T w (sent_all (packets (k_channel k) cmd data)) w1"
    and "\<And>w. \<exists>w' status. tr_Receive T w = Some (Inr (init_packet (k_channel k) CmdKeepalive [status]), w')"
  shows "roundTrip k cmd data w = None"
proof -
  let ?ch = "k_channel k"
  have alive: "goes_on (fst (Feed rc r)) \<and> rc_channel (snd (Feed rc r)) = ?ch"
    if "rc_channel rc = ?ch" and "tr_Receive T w = Some (Inr r, w')" for rc r w w'
    using that assms(4) [of w]
    by (auto simp: Feed_view view_init_packet finish_eq CmdKeepalive_def)
  have pat: "rc_channel (snd (run_feed Feed rc rs)) = ?ch"
    if "rc_channel rc = ?ch" for rc rs
    using that by (rule ctaphid.own_run)
  have "\<not> concluded T cmd (NewReassembler ?ch) w1 res w2" for res w2
  proof
    assume "concluded T cmd (NewReassembler ?ch) w1 res w2"
    then consider
        rs r w3 where "tr_Receive T w3 = Some (Inr r, w2)"
          "\<not> goes_on (fst (Feed (snd (run_feed Feed (NewReassembler ?ch) rs)) r))"
      | w3 e where "tr_Receive T w3 = Some (Inl e, w2)"
      unfolding concluded_def by (auto simp: trace_append)
    then show False
    proof cases
      case 1
      with alive [OF pat [of "NewReassembler ?ch" rs] 1(1)] show False
        by (simp add: NewReassembler_def)
    next
      case 2
      with assms(4) [of w3] show False by auto
    qed
  qed
  then have "receive_loop T cmd (NewReassembler ?ch) w1 = None"
    using receive_loop_concluded by (metis option.exhaust prod.exhaust)
  with roundTrip_sent [OF assms(1-3)] show ?thesis by simp
qed

theorem keepalives_are_waited_out_witness:
  "let T = \<lparr>tr_Send = (\<lambda>_ w. (None, w)),
            tr_Receive = (\<lambda>w. Some (Inr (init_packet 5 CmdKeepalive [2]), w)),
            tr_Name = (\<lambda>_. ''Busy''), tr_Close = (\<lambda>w. (None, w))\<rparr> :: unit transport
   in roundTrip \<lparr>k_t = Some T, k_channel = 5, k_version = zero_version, k_caps = 0\<rparr> CmdPing [] () = None"
  unfolding Let_def
  by (rule keepalives_are_waited_out [where ?w1.0 = "()"]) (auto simp: wire_simps packets_def)

text \<open>
  C21. A key that \<open>Open\<close> returns has shaken hands: the transport's randomness gave a nonce, an
  \<open>INIT\<close> carrying it was sent on the broadcast channel, the reply came back under \<open>INIT\<close> with
  the same nonce, and the key's channel, version and capabilities are the ones in that reply.
  Nothing was closed.
\<close>

theorem Open_shakes_hands:
  assumes "Open randomNonce t w = Some (Inr k, w2)"
  shows "\<exists>bs nonce init ps rs r extra. fst (randomNonce 8 w) = Inr bs \<and>
    nonce = go_copy (make_bytes 8) bs \<and> ir_Nonce init = nonce \<and>
    Split BroadcastChannel CmdInit nonce = Inr ps \<and>
    trace t (snd (randomNonce 8 w)) (sent_all ps @ received_all (rs @ [r])) w2 \<and>
    fst (Feed (snd (run_feed Feed (NewReassembler BroadcastChannel) rs)) r) =
      Inr (Some \<lparr>m_channel = BroadcastChannel, m_cmd = CmdInit, m_data = encode_init init @ extra\<rparr>) \<and>
    k = \<lparr>k_t = Some t, k_channel = ir_Channel init, k_version = ir_Version init, k_caps = ir_Caps init\<rparr>"
  using assms
proof (cases rule: Open_cases)
  case (opened bs reply init)
  obtain T ps rs r where conv: "T = t" "Split BroadcastChannel CmdInit (go_copy (make_bytes 8) bs) = Inr ps"
    "trace t (snd (randomNonce 8 w)) (sent_all ps @ received_all (rs @ [r])) w2"
    "fst (Feed (snd (run_feed Feed (NewReassembler BroadcastChannel) rs)) r) =
       Inr (Some \<lparr>m_channel = BroadcastChannel, m_cmd = CmdInit, m_data = reply\<rparr>)"
    by (rule roundTrip_answer [OF opened(2)]) auto
  from opened(3) have "reply = encode_init init @ drop 17 reply"
    using encode_ParseInit by blast
  with conv(4) have "fst (Feed (snd (run_feed Feed (NewReassembler BroadcastChannel) rs)) r) =
      Inr (Some \<lparr>m_channel = BroadcastChannel, m_cmd = CmdInit, m_data = encode_init init @ drop 17 reply\<rparr>)"
    by simp
  moreover have "k = \<lparr>k_t = Some t, k_channel = ir_Channel init, k_version = ir_Version init,
      k_caps = ir_Caps init\<rparr>"
    using opened(5) by simp
  ultimately show ?thesis
    using conv(2,3) opened(1,4) by blast
qed auto

theorem Open_shakes_hands_witness:
  "\<exists>w2. Open (\<lambda>n w. (Inr [1, 2, 3, 4, 5, 6, 7, 8], w)) scripted
      (script (packets BroadcastChannel CmdInit
        [1, 2, 3, 4, 5, 6, 7, 8, 0, 0, 0, 9, 2, 5, 7, 4, 5])) =
    Some (Inr \<lparr>k_t = Some scripted, k_channel = 9,
      k_version = \<lparr>v_CTAPHID = 2, v_Major = 5, v_Minor = 7, v_Build = 4\<rparr>, k_caps = 5\<rparr>, w2) \<and>
    (\<exists>ps rs. Split BroadcastChannel CmdInit [1, 2, 3, 4, 5, 6, 7, 8] = Inr ps \<and>
      trace scripted (script (packets BroadcastChannel CmdInit
        [1, 2, 3, 4, 5, 6, 7, 8, 0, 0, 0, 9, 2, 5, 7, 4, 5])) (sent_all ps @ received_all rs) w2)"
proof -
  let ?reply = "[1, 2, 3, 4, 5, 6, 7, 8, 0, 0, 0, 9, 2, 5, 7, 4, 5] :: bytes"
  let ?nonce = "[1, 2, 3, 4, 5, 6, 7, 8] :: bytes"
  let ?src = "\<lambda>n w. (Inr ?nonce, w) :: (ext_error + bytes) \<times> scripted"
  have key: "\<lparr>k_t = Some scripted, k_channel = BroadcastChannel, k_version = zero_version, k_caps = 0\<rparr>
      = scripted_key BroadcastChannel 0"
    by (simp add: scripted_key_def)
  have rt: "\<exists>w2. roundTrip (scripted_key BroadcastChannel 0) CmdInit ?nonce
      (script (packets BroadcastChannel CmdInit ?reply)) = Some (Inr ?reply, w2)"
    using scripted_exchange [of ?nonce CmdInit ?reply BroadcastChannel 0 "[]"]
    by (simp add: wire_simps)
  then obtain w2 where opened: "Open ?src scripted (script (packets BroadcastChannel CmdInit ?reply)) =
    Some (Inr \<lparr>k_t = Some scripted, k_channel = 9,
      k_version = \<lparr>v_CTAPHID = 2, v_Major = 5, v_Minor = 7, v_Build = 4\<rparr>, k_caps = 5\<rparr>, w2)"
    by (auto simp: Open_def key ParseInit_eq go_copy_def)
  have "go_copy (make_bytes 8) ?nonce = ?nonce" by (simp add: go_copy_def)
  with Open_shakes_hands [OF opened] obtain ps rs r where "Split BroadcastChannel CmdInit ?nonce = Inr ps"
    "trace scripted (script (packets BroadcastChannel CmdInit ?reply)) (sent_all ps @ received_all (rs @ [r])) w2"
    by auto
  with opened show ?thesis by blast
qed

text \<open>
  C38. \<open>Open\<close> owns the transport it is given: once there is a nonce or none, it only sends and
  receives, and then closes the transport exactly once if it fails, and not at all if it
  succeeds.  It never panics.
\<close>

theorem Open_closes_iff_it_fails:
  assumes "Open randomNonce t w = Some (r, w2)"
  shows "\<exists>evs w1. trace t (snd (randomNonce 8 w)) evs w1 \<and>
    (case r of Inl e \<Rightarrow> w2 = snd (tr_Close t w1) | Inr k \<Rightarrow> w2 = w1 \<and> k_t k = Some t) \<and> \<not> panics r"
  using assms
proof (cases rule: Open_cases)
  case (failed e w1 evs)
  then show ?thesis by auto
next
  case (opened bs reply init)
  then show ?thesis using roundTrip_trace [OF opened(2), of t] by auto
qed

theorem Open_closes_iff_it_fails_witness:
  "\<exists>e w2. Open (\<lambda>n w. (Inl ''no entropy'', w)) scripted (script []) = Some (Inl e, w2) \<and> s_closed w2 = 1"
proof -
  have run: "Open (\<lambda>n w. (Inl ''no entropy'', w)) scripted (script []) =
      Some (Inl (Key (CannotMakeNonce ''no entropy'')), \<lparr>s_inbox = [], s_sent = [], s_closed = 1\<rparr>)"
    by (simp add: Open_def close_and_fail_def Key_Close_def script_def)
  show ?thesis using run Open_closes_iff_it_fails [OF run] by auto
qed

text \<open>
  C8. \<open>roundTrip\<close> is the conversation it is meant to be, and no other: it returns a result exactly
  when the wire can have gone that way -- refused as too long with nothing sent, a nil
  dereference on a closed key, a prefix of the reports sent up to the one that failed, or all of
  them sent and then a sequence of reports heard of which only the last one ends the wait.  A
  conversation that does not end in one of these is one from which it does not return.
\<close>

theorem roundTrip_is_a_conversation:
  "(roundTrip k cmd data w = Some (res, w2) \<longleftrightarrow> conversation k cmd data w res w2) \<and>
   (roundTrip k cmd data w = None \<longleftrightarrow> (\<nexists>res w2. conversation k cmd data w res w2))"
  by (cases "roundTrip k cmd data w") (auto simp flip: roundTrip_conversation)

text \<open>
  After \<open>Close\<close> the key has no transport: a second \<open>Close\<close> does nothing and reports
  nothing, and any request on the key leaves the world alone -- it is refused when too long and
  is a nil dereference otherwise.
\<close>

lemma Close_is_final:
  "let ((e, k1), w1) = Key_Close k w in
     (e, w1) = (case k_t k of None \<Rightarrow> (None, w) | Some T \<Rightarrow> tr_Close T w) \<and>
     k1 = k\<lparr>k_t := None\<rparr> \<and> Key_Close k1 w1 = ((None, k1), w1) \<and>
     roundTrip k1 cmd data w1 =
       Some (Inl (if MaxMessage < length data then Wire ErrTooLong else Panic NilDereference), w1)"
  by (cases "k_t k") (auto simp: Key_Close_def split_beta Let_def roundTrip_closed roundTrip_too_long)

text \<open>
  \<open>Wink\<close> asks only a key that said it can: without the capability bit nothing is sent and
  the error names the device, and with it the result is the round trip's, its payload dropped.
\<close>

lemma Wink_asks_only_a_key_that_can:
  "k_t k = Some T \<Longrightarrow> Wink k w =
     (if bit (k_caps k) 0
      then bindIO (roundTrip k CmdWink []) (\<lambda>_. retIO ()) w
      else Some (Inl (Key (CannotWink (tr_Name T w))), w))"
  using caps.has_bit [of 0 "k_caps k"]
  by (simp add: Wink_def CapWink_def Key_Name_def with_transport_def)

end
