(* ===== verification/Ctap2.thy ===== *)
theory Ctap2
  imports Device Cbor
begin

text \<open>
  \<open>ctap2.go\<close>: status codes, the \<open>CBOR\<close> command and \<open>GetInfo\<close>; and from \<open>credential.go\<close> the three
  helpers every CTAP2 command goes through, \<open>ctap2Ready\<close>, \<open>cborCall\<close> and \<open>field\<close>.
\<close>

section \<open>Status\<close>

type_synonym Status = byte

definition CmdGetInfo :: byte where "CmdGetInfo = 0x04"

definition StatusOK :: Status where "StatusOK = 0x00"

definition statusTable :: "(Status \<times> string) list" where
  "statusTable =
     [(0x01, ''the command is not one this authenticator knows''),
      (0x02, ''a parameter was wrong''),
      (0x11, ''the CBOR held a type the command did not expect''),
      (0x12, ''the CBOR was invalid''),
      (0x24, ''an operation is already in progress''),
      (0x27, ''the person refused''),
      (0x2b, ''an option this authenticator does not support''),
      (0x2e, ''no credential the authenticator holds matches''),
      (0x2f, ''the person did not act in time''),
      (0x31, ''the PIN was wrong''),
      (0x32, ''the PIN is blocked: no tries are left, and only a reset, which erases the credentials, unblocks it''),
      (0x33, ''the PIN token was not accepted''),
      (0x34, ''too many wrong PINs in a row; unplug the key and plug it in again''),
      (0x35, ''no PIN is set on this authenticator''),
      (0x36, ''a PIN is required and none was given''),
      (0x37, ''the PIN does not meet the authenticator'' @ [CHR 0x27] @ ''s policy''),
      (0x3a, ''the person did not touch the key in time''),
      (0x3b, ''the key needs to be touched'')]"

definition statusNames :: "Status \<Rightarrow> string option" where
  "statusNames = map_of statusTable"

definition Status_Error :: "Status \<Rightarrow> bool" where
  "Status_Error s \<longleftrightarrow> s \<noteq> StatusOK"

definition Status_String :: "Status \<Rightarrow> string" where
  "Status_String s =
     (if s = StatusOK then ''ok''
      else case statusNames s of
        Some name \<Rightarrow> name @ '' ('' @ fmt_hex 2 (unat s) @ '')''
      | None \<Rightarrow> ''CTAP2 status '' @ fmt_hex 2 (unat s))"

section \<open>Sending a CTAP2 command\<close>

text \<open>
  The package's variable \<open>ctap2\<close>, from what the library answers to its own CTAP2 options: the
  encoder, which is the \<open>cb_marshal\<close> of every request, or a panic before \<open>main\<close>.
\<close>

definition ctap2 :: "ext_error + 'mode \<Rightarrow> 'mode outcome" where
  "ctap2 EncMode = (case EncMode of
     Inl err \<Rightarrow> Inl (Panic (PanicValue (''fido: the CBOR library refused its own CTAP2 options: '' @ err)))
   | Inr m \<Rightarrow> Inr m)"

definition CBOR :: "'w key \<Rightarrow> byte \<Rightarrow> bytes \<Rightarrow> ('w, bytes) io" where
  "CBOR k cmd params =
     bindIO (roundTrip k CmdCBOR ([cmd] @ params)) (\<lambda>reply.
       if length reply = 0 then bindIO (Key_Name k) (\<lambda>name. failIO (Ctap2 (NothingAtAll name)))
       else bindIO (liftIO (index reply 0)) (\<lambda>s.
         if Status_Error s then bindIO (Key_Name k) (\<lambda>name. failIO (Ctap2 (StatusRefusal name s)))
         else liftIO (slice reply 1 (length reply))))"

definition ctap2Ready :: "'w key \<Rightarrow> ('w, unit) io" where
  "ctap2Ready k =
     (if \<not> Capabilities_Has (k_caps k) CapCBOR
      then bindIO (Key_Name k) (\<lambda>name. failIO (Ctap2 (NoCTAP2 name)))
      else retIO ())"

definition cborCall :: "cbor \<Rightarrow> 'w key \<Rightarrow> byte \<Rightarrow> (int \<Rightarrow> gval option) \<Rightarrow> ('w, bytes) io" where
  "cborCall C k cmd params =
     bindIO (liftIO (wrapExt (\<lambda>e. Exchange (CannotEncode e)) (cb_marshal C (GIntMap params))))
       (\<lambda>b. CBOR k cmd b)"

text \<open>A required member of a reply, decoded with \<open>dec\<close>.\<close>

definition field ::
    "(u64 \<Rightarrow> bytes option) \<Rightarrow> u64 \<Rightarrow> (bytes \<Rightarrow> ext_error + 'a) \<Rightarrow> string \<Rightarrow> 'a outcome" where
  "field raw key dec what = (case raw key of
     None \<Rightarrow> Inl (Exchange (ReplyLacks what))
   | Some m \<Rightarrow> wrapExt (\<lambda>e. Exchange (ReplyField what e)) (dec m))"

section \<open>GetInfo\<close>

record Info =
  i_Versions :: "string list"
  i_Extensions :: "string list"
  i_AAGUID :: bytes
  i_Options :: "(string \<times> bool) list"
  i_MaxMsgSize :: u64
  i_PINProtocols :: "u64 list"
  i_Transports :: "string list"

text \<open>
  \<open>Options\<close> is a Go map.  It is kept as its entries in the order an iteration happens to visit
  them, each key once; a lookup is \<open>map_of\<close>.
\<close>

definition Info_Has :: "Info \<Rightarrow> string \<Rightarrow> bool" where
  "Info_Has i option = (case map_of (i_Options i) option of None \<Rightarrow> False | Some v \<Rightarrow> v)"

definition Info_String :: "Info \<Rightarrow> string" where
  "Info_String i =
     (let on = map fst (filter snd (i_Options i));
          on = sort_Strings on;
          versions = Join (i_Versions i) '', '';
          versions = (if versions = [] then ''no version stated'' else versions)
      in if length on = 0 then versions else versions @ ''; '' @ Join on '', '')"

definition infoVersions :: u64 where "infoVersions = 0x01"
definition infoExtensions :: u64 where "infoExtensions = 0x02"
definition infoAAGUID :: u64 where "infoAAGUID = 0x03"
definition infoOptions :: u64 where "infoOptions = 0x04"
definition infoMaxMsgSize :: u64 where "infoMaxMsgSize = 0x05"
definition infoPINProtocols :: u64 where "infoPINProtocols = 0x06"
definition infoTransports :: u64 where "infoTransports = 0x09"

text \<open>The closure \<open>get\<close>: a member that is absent leaves the target's zero value.\<close>

definition info_get ::
    "(u64 \<Rightarrow> bytes option) \<Rightarrow> u64 \<Rightarrow> (bytes \<Rightarrow> ext_error + 'a) \<Rightarrow> 'a \<Rightarrow> 'a outcome" where
  "info_get raw key dec zero = (case raw key of
     None \<Rightarrow> Inr zero
   | Some r \<Rightarrow> wrapExt (\<lambda>e. Ctap2 (InfoField key e)) (dec r))"

definition parseInfo :: "cbor \<Rightarrow> bytes \<Rightarrow> Info outcome" where
  "parseInfo C body =
     (if length body = 0 then Inl (Ctap2 NoBytes)
      else bindR (wrapExt (\<lambda>e. Ctap2 (InfoNotMap e)) (cb_map_u64 C body)) (\<lambda>raw.
        bindR (info_get raw infoVersions (cb_texts C) []) (\<lambda>versions.
        bindR (info_get raw infoExtensions (cb_texts C) []) (\<lambda>extensions.
        bindR (info_get raw infoAAGUID (cb_bytes C) []) (\<lambda>aaguid.
        bindR (info_get raw infoOptions (cb_options C) []) (\<lambda>options.
        bindR (info_get raw infoMaxMsgSize (cb_uint C) 0) (\<lambda>maxMsgSize.
        bindR (info_get raw infoPINProtocols (cb_uints C) []) (\<lambda>pinProtocols.
        bindR (info_get raw infoTransports (cb_texts C) []) (\<lambda>transports.
          let n = length aaguid in
          if n \<noteq> 0 \<and> n \<noteq> 16 then Inl (Ctap2 (AaguidLength n))
          else if length versions = 0 then Inl (Ctap2 NoVersion)
          else Inr \<lparr>i_Versions = versions, i_Extensions = extensions,
                    i_AAGUID = go_copy (make_bytes 16) aaguid, i_Options = options,
                    i_MaxMsgSize = maxMsgSize, i_PINProtocols = pinProtocols,
                    i_Transports = transports\<rparr>)))))))))"

definition GetInfo :: "cbor \<Rightarrow> 'w key \<Rightarrow> ('w, Info) io" where
  "GetInfo C k =
     (if \<not> Capabilities_Has (k_caps k) CapCBOR
      then bindIO (Key_Name k) (\<lambda>name. failIO (Ctap2 (NoCTAP2 name)))
      else bindIO (CBOR k CmdGetInfo []) (\<lambda>body. liftIO (parseInfo C body)))"

section \<open>Lemmas\<close>

lemma Status_String_eq:
  "Status_String s =
     (if s = StatusOK then ''ok''
      else case statusNames s of
        Some name \<Rightarrow> name @ '' (0x'' @ hex_byte s @ '')''
      | None \<Rightarrow> ''CTAP2 status 0x'' @ hex_byte s)"
  by (simp add: Status_String_def fmt_hex_byte split: option.split)

text \<open>The rendering ends in the code, in brackets where the status has a name.\<close>

lemma Status_String_end:
  obtains (ok) "s = StatusOK" "last (Status_String s) = CHR ''k''"
    | (bare) pre where "Status_String s = pre @ hex_byte s"
        "last (Status_String s) \<in> set ''0123456789abcdef''"
    | (named) pre where "Status_String s = pre @ hex_byte s @ '')''" "last (Status_String s) = CHR '')''"
proof (cases "s = StatusOK")
  case True
  then show ?thesis by (intro ok) (simp_all add: Status_String_eq)
next
  case False
  show ?thesis
  proof (cases "statusNames s")
    case None
    with False have eq: "Status_String s = ''CTAP2 status 0x'' @ hex_byte s"
      by (simp add: Status_String_eq)
    have "last (Status_String s) = last (hex_byte s)"
      unfolding eq by (simp add: hex_byte_def)
    with eq last_hex_byte [of s] show ?thesis by (intro bare) simp_all
  next
    case (Some name)
    with False have "Status_String s = (name @ '' (0x'') @ hex_byte s @ '')''"
      by (simp add: Status_String_eq)
    moreover from this have "last (Status_String s) = CHR '')''" by simp
    ultimately show ?thesis by (rule named)
  qed
qed

lemma hex_byte_suffix: "pre @ hex_byte s = pre' @ hex_byte t \<Longrightarrow> s = t"
  by (simp add: hex_byte_inject [symmetric] hex_byte_def)

lemma Status_String_inject: "Status_String s = Status_String t \<longleftrightarrow> s = t"
proof
  assume eq: "Status_String s = Status_String t"
  show "s = t"
  proof (cases s rule: Status_String_end)
    case ok
    then show ?thesis using eq by (cases t rule: Status_String_end) auto
  next
    case (bare pre)
    then show ?thesis using eq by (cases t rule: Status_String_end) (auto dest: hex_byte_suffix)
  next
    case (named pre)
    then show ?thesis using eq
      by (cases t rule: Status_String_end) (auto dest: hex_byte_suffix simp flip: append_assoc)
  qed
qed simp

lemma CBOR_eq:
  assumes "k_t k = Some T"
  shows "CBOR k cmd params w = (case roundTrip k CmdCBOR (cmd # params) w of
      None \<Rightarrow> None
    | Some (Inl e, w1) \<Rightarrow> Some (Inl e, w1)
    | Some (Inr reply, w1) \<Rightarrow> Some (case reply of
          [] \<Rightarrow> Inl (Ctap2 (NothingAtAll (tr_Name T w1)))
        | s # body \<Rightarrow> if s = 0 then Inr body else Inl (Ctap2 (StatusRefusal (tr_Name T w1) s)), w1))"
  using assms
  by (auto simp: CBOR_def bindIO_def Key_Name_def with_transport_def Status_Error_def StatusOK_def
      failIO_def split: option.splits sum.splits prod.splits list.splits)

lemma ctap2Ready_eq:
  assumes "k_t k = Some T"
  shows "ctap2Ready k w =
    Some (if bit (k_caps k) 2 then Inr () else Inl (Ctap2 (NoCTAP2 (tr_Name T w))), w)"
  using caps.has_bit [of 2 "k_caps k"] assms
  by (simp add: ctap2Ready_def CapCBOR_def Key_Name_def with_transport_def)

lemma GetInfo_eq:
  assumes "k_t k = Some T"
  shows "GetInfo C k w =
    (if bit (k_caps k) 2 then bindIO (CBOR k CmdGetInfo []) (\<lambda>body. liftIO (parseInfo C body)) w
     else Some (Inl (Ctap2 (NoCTAP2 (tr_Name T w))), w))"
  using caps.has_bit [of 2 "k_caps k"] assms
  by (simp add: GetInfo_def CapCBOR_def Key_Name_def with_transport_def)

text \<open>A whole exchange with a key that answers \<open>status # body\<close>, nothing else on the wire.\<close>

lemma CBOR_replies:
  assumes "k_t k = Some T" and "k_channel k = ch" and "length params < MaxMessage"
    and "length body < MaxMessage"
    and "trace T w (sent_all (packets ch CmdCBOR (cmd # params)) @
        received_all (packets ch CmdCBOR (status # body))) w2"
  shows "CBOR k cmd params w = Some (if status = 0 then Inr body
    else Inl (Ctap2 (StatusRefusal (tr_Name T w2) status)), w2)"
  using roundTrip_replies [OF assms(1,2) _ _ _ assms(5)] assms(3,4)
  by (simp add: CBOR_eq [OF assms(1)])

lemma scripted_CBOR:
  assumes "length params < MaxMessage" and "length body < MaxMessage"
  shows "CBOR (scripted_key ch caps) cmd params (script (packets ch CmdCBOR (status # body) @ rest)) =
    Some (if status = 0 then Inr body else Inl (Ctap2 (StatusRefusal ''Test Key'' status)),
      \<lparr>s_inbox = rest, s_sent = packets ch CmdCBOR (cmd # params), s_closed = 0\<rparr>)"
  using CBOR_replies [OF _ _ assms script_conversation] by simp

text \<open>A member of the reply, present and decodable or absent and zero.\<close>

definition member_is ::
    "(u64 \<Rightarrow> bytes option) \<Rightarrow> u64 \<Rightarrow> (bytes \<Rightarrow> ext_error + 'a) \<Rightarrow> 'a \<Rightarrow> 'a \<Rightarrow> bool" where
  "member_is raw key dec zero v \<longleftrightarrow> (case raw key of None \<Rightarrow> v = zero | Some b \<Rightarrow> dec b = Inr v)"

lemma info_get_Inr [go_bind]: "info_get raw key dec zero = Inr v \<longleftrightarrow> member_is raw key dec zero v"
  by (auto simp: info_get_def member_is_def wrapExt_eq_Inr split: option.split)

lemma info_get_eq: "member_is raw key dec zero v \<Longrightarrow> info_get raw key dec zero = Inr v"
  by (simp add: info_get_Inr)

lemmas info_key_defs = infoVersions_def infoExtensions_def infoAAGUID_def infoOptions_def
  infoMaxMsgSize_def infoPINProtocols_def infoTransports_def

section \<open>Properties\<close>

text \<open>
  A status code is never lost in print: two codes with the same rendering are the same code;
  zero alone is \<open>ok\<close> and alone is not a refusal; and the two sentences that send a person to
  opposite remedies are the right way round, \<open>0x32\<close> a reset and \<open>0x34\<close> a power cycle.
\<close>

lemma Status_String_identifies:
  "(Status_String s = Status_String t \<longleftrightarrow> s = t) \<and>
   (Status_String s = ''ok'' \<longleftrightarrow> \<not> Status_Error s) \<and>
   Status_String 0x32 = ''the PIN is blocked: no tries are left, and only a reset, which erases the credentials, unblocks it (0x32)'' \<and>
   Status_String 0x34 = ''too many wrong PINs in a row; unplug the key and plug it in again (0x34)''"
proof -
  have "Status_String StatusOK = ''ok''" by (simp add: Status_String_def)
  then have "Status_String s = ''ok'' \<longleftrightarrow> \<not> Status_Error s"
    using Status_String_inject [of s StatusOK] by (simp add: Status_Error_def)
  then show ?thesis
    by (simp add: Status_String_inject)
       (simp add: Status_String_eq StatusOK_def statusNames_def statusTable_def hex_byte_def digit_def)
qed

lemma parseInfo_eq_Inr:
  "parseInfo C body = Inr i \<longleftrightarrow> body \<noteq> [] \<and> (\<exists>raw aaguid. cb_map_u64 C body = Inr raw \<and>
     member_is raw 0x01 (cb_texts C) [] (i_Versions i) \<and> i_Versions i \<noteq> [] \<and>
     member_is raw 0x02 (cb_texts C) [] (i_Extensions i) \<and>
     member_is raw 0x03 (cb_bytes C) [] aaguid \<and>
     i_AAGUID i = (if aaguid = [] then replicate 16 0 else aaguid) \<and> length (i_AAGUID i) = 16 \<and>
     member_is raw 0x04 (cb_options C) [] (i_Options i) \<and>
     member_is raw 0x05 (cb_uint C) 0 (i_MaxMsgSize i) \<and>
     member_is raw 0x06 (cb_uints C) [] (i_PINProtocols i) \<and>
     member_is raw 0x09 (cb_texts C) [] (i_Transports i))"
  (is "_ \<longleftrightarrow> _ \<and> (\<exists>raw aaguid. ?spec raw aaguid)")
proof
  assume "parseInfo C body = Inr i"
  then obtain raw aaguid where "body \<noteq> []" "cb_map_u64 C body = Inr raw"
    "member_is raw 0x01 (cb_texts C) [] (i_Versions i)" "i_Versions i \<noteq> []"
    "member_is raw 0x02 (cb_texts C) [] (i_Extensions i)"
    "member_is raw 0x03 (cb_bytes C) [] aaguid" "length aaguid \<in> {0, 16}"
    "i_AAGUID i = go_copy (make_bytes 16) aaguid"
    "member_is raw 0x04 (cb_options C) [] (i_Options i)"
    "member_is raw 0x05 (cb_uint C) 0 (i_MaxMsgSize i)"
    "member_is raw 0x06 (cb_uints C) [] (i_PINProtocols i)"
    "member_is raw 0x09 (cb_texts C) [] (i_Transports i)"
    by (auto simp: parseInfo_def info_key_defs go_bind Let_def split: if_splits)
  then show "body \<noteq> [] \<and> (\<exists>raw aaguid. ?spec raw aaguid)"
    by (intro conjI exI [of _ raw] exI [of _ aaguid]) auto
next
  assume "body \<noteq> [] \<and> (\<exists>raw aaguid. ?spec raw aaguid)"
  then obtain raw aaguid where nonempty: "body \<noteq> []" and spec: "?spec raw aaguid" by blast
  then have "length aaguid = 0 \<or> length aaguid = 16"
    and "go_copy (make_bytes 16) aaguid = i_AAGUID i"
    by (auto split: if_splits)
  moreover from spec have "info_get raw 0x01 (cb_texts C) [] = Inr (i_Versions i)"
    "info_get raw 0x02 (cb_texts C) [] = Inr (i_Extensions i)"
    "info_get raw 0x03 (cb_bytes C) [] = Inr aaguid"
    "info_get raw 0x04 (cb_options C) [] = Inr (i_Options i)"
    "info_get raw 0x05 (cb_uint C) 0 = Inr (i_MaxMsgSize i)"
    "info_get raw 0x06 (cb_uints C) [] = Inr (i_PINProtocols i)"
    "info_get raw 0x09 (cb_texts C) [] = Inr (i_Transports i)"
    by (auto simp only: info_get_eq)
  ultimately show "parseInfo C body = Inr i"
    using nonempty spec by (auto simp add: parseInfo_def info_key_defs Let_def)
qed

text \<open>
  C40. \<open>parseInfo\<close> accepts exactly the replies that are a CBOR map whose members, where present,
  all decode, that name at least one protocol version, and whose AAGUID is absent, empty or
  sixteen bytes; and the result has every member as decoded, or its zero value where the reply
  is silent.
\<close>

theorem parseInfo_accepts:
  "parseInfo C body = Inr i \<longleftrightarrow> body \<noteq> [] \<and> (\<exists>raw aaguid. cb_map_u64 C body = Inr raw \<and>
     member_is raw 0x01 (cb_texts C) [] (i_Versions i) \<and> i_Versions i \<noteq> [] \<and>
     member_is raw 0x02 (cb_texts C) [] (i_Extensions i) \<and>
     member_is raw 0x03 (cb_bytes C) [] aaguid \<and>
     i_AAGUID i = (if aaguid = [] then replicate 16 0 else aaguid) \<and> length (i_AAGUID i) = 16 \<and>
     member_is raw 0x04 (cb_options C) [] (i_Options i) \<and>
     member_is raw 0x05 (cb_uint C) 0 (i_MaxMsgSize i) \<and>
     member_is raw 0x06 (cb_uints C) [] (i_PINProtocols i) \<and>
     member_is raw 0x09 (cb_texts C) [] (i_Transports i))"
  by (rule parseInfo_eq_Inr)

text \<open>
  \<open>Info.String\<close> does not depend on the order in which Go happens to visit the options map.
\<close>

lemma Info_String_order_free:
  "mset opts = mset (i_Options i) \<Longrightarrow> Info_String (i\<lparr>i_Options := opts\<rparr>) = Info_String i"
proof -
  assume perm: "mset opts = mset (i_Options i)"
  have "mset (map fst (filter snd opts)) = mset (map fst (filter snd (i_Options i)))"
    by (simp add: perm)
  then have "sort_Strings (map fst (filter snd opts)) = sort_Strings (map fst (filter snd (i_Options i)))"
    by (rule sort_Strings_mset)
  then show ?thesis by (simp add: Info_String_def)
qed

end
