(* ===== verification/ClientPin.thy ===== *)
theory ClientPin
  imports PinProto Ctap2
begin

text \<open>
  \<open>clientpin.go\<close>: the subcommands of \<open>authenticatorClientPIN\<close> the program speaks, and the token a
  PIN is exchanged for.  Each operation is a guard, one or two CTAP2 calls, and a pure reading of
  the reply.
\<close>

section \<open>Numbers of the specification\<close>

definition CmdClientPIN :: byte where "CmdClientPIN = 0x06"

definition subGetPINRetries :: int where "subGetPINRetries = 0x01"
definition subGetKeyAgreement :: int where "subGetKeyAgreement = 0x02"
definition subSetPIN :: int where "subSetPIN = 0x03"
definition subChangePIN :: int where "subChangePIN = 0x04"
definition subGetPINToken :: int where "subGetPINToken = 0x05"
definition subGetTokenUsingUV :: int where "subGetTokenUsingUV = 0x06"
definition subGetUVRetries :: int where "subGetUVRetries = 0x07"
definition subGetTokenUsingPIN :: int where "subGetTokenUsingPIN = 0x09"

definition cpProtocol :: int where "cpProtocol = 0x01"
definition cpSubCommand :: int where "cpSubCommand = 0x02"
definition cpKeyAgreement :: int where "cpKeyAgreement = 0x03"
definition cpPinUvAuthParam :: int where "cpPinUvAuthParam = 0x04"
definition cpNewPinEnc :: int where "cpNewPinEnc = 0x05"
definition cpPinHashEnc :: int where "cpPinHashEnc = 0x06"
definition cpPermissions :: int where "cpPermissions = 0x07"
definition cpRPID :: int where "cpRPID = 0x08"

definition cpRespKeyAgreement :: u64 where "cpRespKeyAgreement = 0x01"
definition cpRespToken :: u64 where "cpRespToken = 0x02"
definition cpRespPINRetries :: u64 where "cpRespPINRetries = 0x03"
definition cpRespPowerCycle :: u64 where "cpRespPowerCycle = 0x04"
definition cpRespUVRetries :: u64 where "cpRespUVRetries = 0x05"

lemmas cp_defs = CmdClientPIN_def subGetPINRetries_def subGetKeyAgreement_def subGetPINToken_def
  subGetTokenUsingPIN_def cpProtocol_def cpSubCommand_def cpKeyAgreement_def cpPinHashEnc_def
  cpPermissions_def cpRPID_def cpRespKeyAgreement_def cpRespToken_def cpRespPINRetries_def
  cpRespPowerCycle_def

type_synonym Permissions = u64

definition PermMakeCredential :: Permissions where "PermMakeCredential = 0x01"
definition PermGetAssertion :: Permissions where "PermGetAssertion = 0x02"

section \<open>Retries\<close>

record Retries =
  rt_PIN :: int
  rt_PowerCycle :: bool

definition parse_retries :: "cbor \<Rightarrow> bytes \<Rightarrow> Retries outcome" where
  "parse_retries C body =
     bindR (wrapExt (\<lambda>e. Client (RetriesNotMap e)) (cb_map_u64 C body)) (\<lambda>raw.
     bindR (field raw cpRespPINRetries (cb_int C) ''retry count'') (\<lambda>pin.
     let r = \<lparr>rt_PIN = pin, rt_PowerCycle = False\<rparr> in
     case raw cpRespPowerCycle of
       None \<Rightarrow> Inr r
     | Some m \<Rightarrow> bindR (wrapExt (\<lambda>e. Client (PowerCycleState e)) (cb_bool C m)) (\<lambda>b.
         Inr (r\<lparr>rt_PowerCycle := b\<rparr>))))"

definition PINRetries :: "cbor \<Rightarrow> 'w key \<Rightarrow> ('w, Retries) io" where
  "PINRetries C k =
     bindIO (ctap2Ready k) (\<lambda>_.
     bindIO (cborCall C k CmdClientPIN
       [cpProtocol \<mapsto> GInt PINProtocolOne, cpSubCommand \<mapsto> GInt subGetPINRetries]) (\<lambda>body.
     liftIO (parse_retries C body)))"

section \<open>Key agreement\<close>

definition parse_agreement :: "cbor \<Rightarrow> bytes \<Rightarrow> ecdh_public outcome" where
  "parse_agreement C body =
     bindR (wrapExt (\<lambda>e. Client (AgreementNotMap e)) (cb_map_u64 C body)) (\<lambda>raw.
     case raw cpRespKeyAgreement of
       None \<Rightarrow> Inl (Client NoAgreementKey)
     | Some m \<Rightarrow> coseToECDH C m)"

definition KeyAgreement :: "cbor \<Rightarrow> 'w key \<Rightarrow> PINProtocol \<Rightarrow> ('w, ecdh_public) io" where
  "KeyAgreement C k proto =
     bindIO (ctap2Ready k) (\<lambda>_.
     bindIO (cborCall C k CmdClientPIN
       [cpProtocol \<mapsto> GInt proto, cpSubCommand \<mapsto> GInt subGetKeyAgreement]) (\<lambda>body.
     liftIO (parse_agreement C body)))"

section \<open>Tokens\<close>

record Token =
  t_keys :: pinKeys
  t_raw :: bytes

definition zero_token :: Token where
  "zero_token = \<lparr>t_keys = \<lparr>pk_proto = 0, pk_aes = [], pk_hmac = []\<rparr>, t_raw = []\<rparr>"

definition Token_Protocol :: "Token \<Rightarrow> PINProtocol" where
  "Token_Protocol t = pk_proto (t_keys t)"

definition Token_Valid :: "Token \<Rightarrow> bool" where
  "Token_Valid t \<longleftrightarrow> 0 < length (t_raw t)"

definition authParam :: "Token \<Rightarrow> bytes \<Rightarrow> bytes" where
  "authParam t data =
     authenticate \<lparr>pk_proto = pk_proto (t_keys t), pk_aes = t_raw t, pk_hmac = t_raw t\<rparr> data"

definition pin_request ::
    "PINProtocol \<Rightarrow> (int \<Rightarrow> gval option) \<Rightarrow> bytes \<Rightarrow> Permissions \<Rightarrow> string \<Rightarrow> int \<Rightarrow> gval option" where
  "pin_request proto ownCOSE hashEnc perms rpID =
     (let req = [cpProtocol \<mapsto> GInt proto,
                 cpSubCommand \<mapsto> GInt subGetTokenUsingPIN,
                 cpKeyAgreement \<mapsto> GIntMap ownCOSE,
                 cpPinHashEnc \<mapsto> GBytes hashEnc,
                 cpPermissions \<mapsto> GInt (uint perms)];
          req = (if rpID \<noteq> [] then req(cpRPID \<mapsto> GText rpID) else req)
      in if perms = 0
         then [cpProtocol \<mapsto> GInt proto,
               cpSubCommand \<mapsto> GInt subGetPINToken,
               cpKeyAgreement \<mapsto> GIntMap ownCOSE,
               cpPinHashEnc \<mapsto> GBytes hashEnc]
         else req)"

definition parse_token :: "cbor \<Rightarrow> pinKeys \<Rightarrow> PINProtocol \<Rightarrow> bytes \<Rightarrow> Token outcome" where
  "parse_token C keys proto body =
     bindR (wrapExt (\<lambda>e. Client (TokenNotMap e)) (cb_map_u64 C body)) (\<lambda>raw.
     bindR (field raw cpRespToken (cb_bytes C) ''token'') (\<lambda>enc.
     bindR (wrapErr TokenWillNotDecrypt (decrypt keys enc)) (\<lambda>tok.
     if length tok \<noteq> 32 \<and> (proto \<noteq> PINProtocolOne \<or> length tok \<noteq> 16)
     then Inl (Client (TokenLength (length tok) proto))
     else Inr \<lparr>t_keys = keys, t_raw = tok\<rparr>)))"

definition PINToken ::
    "cbor \<Rightarrow> 'w seams \<Rightarrow> 'w key \<Rightarrow> string \<Rightarrow> PINProtocol \<Rightarrow> Permissions \<Rightarrow> string \<Rightarrow> ('w, Token) io" where
  "PINToken C S k pin proto perms rpID =
     bindIO (ctap2Ready k) (\<lambda>_.
     if pin = [] then failIO (Client EmptyPINGiven)
     else
     bindIO (KeyAgreement C k proto) (\<lambda>pub.
     bindIO (agree S proto pub) (\<lambda>(ownCOSE, keys).
     bindIO (pinHash S keys pin) (\<lambda>hashEnc.
     bindIO (cborCall C k CmdClientPIN (pin_request proto ownCOSE hashEnc perms rpID)) (\<lambda>body.
     liftIO (parse_token C keys proto body))))))"

section \<open>Lemmas\<close>

lemma field_Inr [go_bind]:
  "field raw key dec what = Inr v \<longleftrightarrow> (\<exists>m. raw key = Some m \<and> dec m = Inr v)"
  by (auto simp: field_def wrapExt_eq_Inr split: option.split)

text \<open>A key that does not speak CTAP2 is refused where it stands.\<close>

lemma not_ready:
  assumes "k_t k = Some T" and "\<not> bit (k_caps k) 2"
  shows "bindIO (ctap2Ready k) f w = Some (Inl (Ctap2 (NoCTAP2 (tr_Name T w))), w)"
  using assms by (simp add: ctap2Ready_eq)

lemma ready:
  assumes "k_t k = Some T" and "bit (k_caps k) 2"
  shows "bindIO (ctap2Ready k) f w = f () w"
  using assms by (simp add: ctap2Ready_eq)

lemma ctap2Ready_Inr [go_bind]:
  "ctap2Ready k w = Some (Inr u, w1) \<longleftrightarrow> w1 = w \<and> Capabilities_Has (k_caps k) CapCBOR"
  by (auto simp: ctap2Ready_def bindIO_def failIO_def Key_Name_def split: option.splits sum.splits)

lemma parse_retries_eq_Inr:
  "parse_retries C body = Inr r \<longleftrightarrow> (\<exists>raw m. cb_map_u64 C body = Inr raw \<and>
     raw 3 = Some m \<and> cb_int C m = Inr (rt_PIN r) \<and> member_is raw 4 (cb_bool C) False (rt_PowerCycle r))"
  by (cases r) (auto simp: parse_retries_def go_bind cp_defs member_is_def Let_def split: option.splits)

lemma parse_token_eq_Inr:
  "parse_token C keys proto body = Inr t \<longleftrightarrow> (\<exists>raw m enc. cb_map_u64 C body = Inr raw \<and>
     raw 2 = Some m \<and> cb_bytes C m = Inr enc \<and> t_keys t = keys \<and> decrypt keys enc = Inr (t_raw t) \<and>
     (length (t_raw t) = 32 \<or> proto = 1 \<and> length (t_raw t) = 16))"
  by (cases t) (auto simp: parse_token_def go_bind cp_defs protocol_defs split: if_splits)

text \<open>What a successful exchange of a PIN went through.\<close>

lemma PINToken_Inr:
  assumes "PINToken C S k pin proto perms rpID w = Some (Inr t, w5)"
  obtains pub w1 d w2 own secret keys hashEnc w3 body where
    "bit (k_caps k) 2" "pin \<noteq> []" "KeyAgreement C k proto w = Some (Inr pub, w1)"
    "sm_newECDHKey S w1 = (Inr d, w2)" "ecdhToCOSE (priv_PublicKey d) = Inr own"
    "priv_ECDH d pub = Inr secret" "deriveKeys (sm_hkdfKey S) proto secret = Inr keys"
    "pinHash S keys pin w2 = Some (Inr hashEnc, w3)"
    "cborCall C k CmdClientPIN (pin_request proto own hashEnc perms rpID) w3 = Some (Inr body, w5)"
    "parse_token C keys proto body = Inr t"
  using assms caps.has_bit [of 2 "k_caps k"]
  by (auto simp: PINToken_def bindIO_eq_Inr ctap2Ready_Inr agree_eq_Inr CapCBOR_def liftIO_def
      failIO_def split: if_splits)

lemma parse_agreement_Inr:
  "parse_agreement C body = Inr pub \<longleftrightarrow>
     (\<exists>raw m. cb_map_u64 C body = Inr raw \<and> raw 1 = Some m \<and> coseToECDH C m = Inr pub)"
  by (cases "cb_map_u64 C body") (auto simp: parse_agreement_def cp_defs split: option.splits)

lemma KeyAgreement_Inr:
  "KeyAgreement C k proto w = Some (Inr pub, w1) \<longleftrightarrow> bit (k_caps k) 2 \<and> (\<exists>body raw m.
     cborCall C k CmdClientPIN [1 \<mapsto> GInt proto, 2 \<mapsto> GInt 2] w = Some (Inr body, w1) \<and>
     cb_map_u64 C body = Inr raw \<and> raw 1 = Some m \<and> coseToECDH C m = Inr pub)"
  using caps.has_bit [of 2 "k_caps k"]
  by (auto simp: KeyAgreement_def parse_agreement_Inr bindIO_eq_Inr ctap2Ready_Inr CapCBOR_def cp_defs
      liftIO_def)

lemma PINToken_shape:
  assumes "PINToken C S k pin proto perms rpID w = Some (Inr t, w1)"
  shows "Token_Protocol t = proto \<and> proto \<in> {1, 2} \<and> Token_Valid t \<and>
    (length (t_raw t) = 32 \<or> proto = 1 \<and> length (t_raw t) = 16) \<and>
    length (authParam t data) = (if proto = 1 then 16 else 32)"
proof (rule PINToken_Inr [OF assms])
  fix keys secret body
  assume derived: "deriveKeys (sm_hkdfKey S) proto secret = Inr keys"
    and parsed: "parse_token C keys proto body = Inr t"
  from deriveKeys_Inr [OF derived] parsed show ?thesis
    by (auto simp: parse_token_eq_Inr Token_Protocol_def Token_Valid_def authParam_def length_authenticate)
qed

section \<open>Properties\<close>

text \<open>
  The retry count is asked for with one command, under protocol one and without a secret, and
  what is returned is what the reply's map holds: the count, which must be there, and whether the
  key must be unplugged, which when absent is no.
\<close>

lemma PINRetries_reads:
  "PINRetries C k w = Some (Inr r, w1) \<longleftrightarrow> bit (k_caps k) 2 \<and> (\<exists>params body raw m.
     cb_marshal C (GIntMap [1 \<mapsto> GInt 1, 2 \<mapsto> GInt 1]) = Inr params \<and>
     CBOR k CmdClientPIN params w = Some (Inr body, w1) \<and> cb_map_u64 C body = Inr raw \<and>
     raw 3 = Some m \<and> cb_int C m = Inr (rt_PIN r) \<and> member_is raw 4 (cb_bool C) False (rt_PowerCycle r))"
  using caps.has_bit [of 2 "k_caps k"]
  by (auto simp: PINRetries_def bindIO_eq_Inr ctap2Ready_Inr CapCBOR_def cborCall_def wrapExt_eq_Inr
      liftIO_def parse_retries_eq_Inr cp_defs protocol_defs)

text \<open>
  C28. A key that \<open>KeyAgreement\<close> returns is a point of P-256 in the encoding \<open>crypto/ecdh\<close> takes:
  an authenticator cannot make the platform agree over a point of another curve.
\<close>

theorem KeyAgreement_on_curve:
  assumes "KeyAgreement C k proto w = Some (Inr pub, w1)"
  shows "NewPublicKey (pub_Bytes pub) = Inr pub \<and> (\<exists>x y. length x = 32 \<and> length y = 32 \<and>
    pub_Bytes pub = 0x04 # x @ y \<and> IsOnCurve (int (SetBytes x)) (int (SetBytes y)))"
proof -
  from assms obtain m where "coseToECDH C m = Inr pub" by (auto simp: KeyAgreement_Inr)
  then obtain x y where "length x = 32" "length y = 32" "IsOnCurve (int (SetBytes x)) (int (SetBytes y))"
    and "pub = \<lparr>pub_curve = P256, pub_Bytes = 0x04 # x @ y\<rparr>"
    by (auto simp: coseToECDH_eq_Inr)
  then show ?thesis by (auto simp: NewPublicKey_ok)
qed

text \<open>Two replies to come: a key to agree with, and a token sealed under the keys agreed.\<close>

definition token_cbor :: "bytes \<Rightarrow> cbor" where
  "token_cbor tok = key_cbor\<lparr>cb_map_u64 := (\<lambda>b. Inr [1 \<mapsto> [0],
     2 \<mapsto> seal (one_keys Gx_bytes) (make_bytes 16) tok]), cb_bytes := (\<lambda>b. Inr b)\<rparr>"

definition two_replies :: scripted where
  "two_replies = script (packets 5 CmdCBOR [0, 1] @ packets 5 CmdCBOR [0, 1] @ [])"

lemma token_cbor_simps [simp]:
  "cb_marshal (token_cbor tok) v = Inr [0]"
  "cb_map_u64 (token_cbor tok) b = Inr [1 \<mapsto> [0], 2 \<mapsto> seal (one_keys Gx_bytes) (make_bytes 16) tok]"
  "cb_bytes (token_cbor tok) b = Inr b"
  by (simp_all add: token_cbor_def key_cbor_def tiny_cbor_def)

lemma token_cbor_G: "coseToECDH (token_cbor tok) raw = Inr G_public"
  using key_cbor_G [of raw] by (simp add: coseToECDH_def key_coordinate_def token_cbor_def key_cbor_def)

lemma scripted_cborCall:
  assumes "s_inbox w = packets ch CmdCBOR (0 # body) @ rest" and "length body < MaxMessage"
    and "cb_marshal C (GIntMap m) = Inr params" and "length params < MaxMessage"
  shows "cborCall C (scripted_key ch caps) cmd m w =
    Some (Inr body, w\<lparr>s_sent := s_sent w @ packets ch CmdCBOR (cmd # params), s_inbox := rest\<rparr>)"
proof -
  have "trace scripted w (sent_all (packets ch CmdCBOR (cmd # params)) @
      received_all (packets ch CmdCBOR (0 # body)))
      (w\<lparr>s_sent := s_sent w @ packets ch CmdCBOR (cmd # params), s_inbox := rest\<rparr>)"
    unfolding trace_append
    using scripted_sends [of w "packets ch CmdCBOR (cmd # params)"] assms(1)
      scripted_receives [of "w\<lparr>s_sent := s_sent w @ packets ch CmdCBOR (cmd # params)\<rparr>"
        "packets ch CmdCBOR (0 # body)" rest]
    by (auto intro!: exI)
  from CBOR_replies [OF _ _ assms(4,2) this] assms(3) show ?thesis
    by (simp add: cborCall_def)
qed

lemma scripted_KeyAgreement:
  "KeyAgreement (token_cbor tok) (scripted_key 5 4) 1 two_replies =
    Some (Inr G_public, \<lparr>s_inbox = packets 5 CmdCBOR [0, 1] @ [],
      s_sent = packets 5 CmdCBOR [CmdClientPIN, 0], s_closed = 0\<rparr>)"
proof -
  define w1 :: scripted where "w1 = \<lparr>s_inbox = packets 5 CmdCBOR [0, 1] @ [],
    s_sent = packets 5 CmdCBOR [CmdClientPIN, 0], s_closed = 0\<rparr>"
  have "cborCall (token_cbor tok) (scripted_key 5 4) CmdClientPIN [1 \<mapsto> GInt 1, 2 \<mapsto> GInt 2] two_replies =
    Some (Inr [1], two_replies\<lparr>s_sent := s_sent two_replies @ packets 5 CmdCBOR (CmdClientPIN # [0]),
      s_inbox := packets 5 CmdCBOR [0, 1] @ []\<rparr>)"
    by (rule scripted_cborCall) (simp_all add: two_replies_def script_def wire_simps)
  also have "two_replies\<lparr>s_sent := s_sent two_replies @ packets 5 CmdCBOR (CmdClientPIN # [0]),
      s_inbox := packets 5 CmdCBOR [0, 1] @ []\<rparr> = w1"
    by (simp add: two_replies_def script_def w1_def)
  finally have call: "cborCall (token_cbor tok) (scripted_key 5 4) CmdClientPIN [1 \<mapsto> GInt 1, 2 \<mapsto> GInt 2]
    two_replies = Some (Inr [1], w1)" .
  have "KeyAgreement (token_cbor tok) (scripted_key 5 4) 1 two_replies = Some (Inr G_public, w1)"
    unfolding KeyAgreement_Inr
    by (intro conjI exI [of _ "[1]"] exI [of _ "[0]"] exI [of _ "[1 \<mapsto> [0],
        2 \<mapsto> seal (one_keys Gx_bytes) (make_bytes 16) tok]"]; (rule call token_cbor_G)?)
       (simp_all add: bit_numeral_word_iff)
  then show ?thesis by (simp only: w1_def)
qed

lemma scripted_PINToken:
  assumes "length tok = 32"
  shows "\<exists>w. PINToken (token_cbor tok) fixed_seams (scripted_key 5 4) ''1234'' 1 0 [] two_replies =
    Some (Inr \<lparr>t_keys = one_keys Gx_bytes, t_raw = tok\<rparr>, w)"
proof -
  let ?C = "token_cbor tok"
  let ?k = "scripted_key 5 4"
  define w1 :: scripted where "w1 = \<lparr>s_inbox = packets 5 CmdCBOR [0, 1] @ [],
    s_sent = packets 5 CmdCBOR [CmdClientPIN, 0], s_closed = 0\<rparr>"
  obtain own where own: "agree fixed_seams 1 G_public w1 = Some (Inr (own, one_keys Gx_bytes), w1)"
    by (auto simp: agree_eq_Inr deriveKeys_default ecdhToCOSE_eq G_public_def [symmetric])
       (simp add: G_public_def)
  obtain h where hash: "pinHash fixed_seams (one_keys Gx_bytes) ''1234'' w1 = Some (Inr h, w1)"
    by (simp add: pinHash_def encrypt_eq derived_usable Let_def flip: length_0_conv)
  have "\<exists>w2. cborCall ?C ?k CmdClientPIN (pin_request 1 own h 0 []) w1 = Some (Inr [1], w2)"
    using scripted_cborCall [of w1 5 "[1]" "[]" ?C _ "[0]"] by (simp add: w1_def wire_simps)
  then obtain w2 where call: "cborCall ?C ?k CmdClientPIN (pin_request 1 own h 0 []) w1 = Some (Inr [1], w2)"
    by blast
  have "decrypt (one_keys Gx_bytes) (seal (one_keys Gx_bytes) (make_bytes 16) tok) = Inr tok"
    using assms by (intro decrypt_seal derived_usable) auto
  then have "parse_token ?C (one_keys Gx_bytes) 1 [1] = Inr \<lparr>t_keys = one_keys Gx_bytes, t_raw = tok\<rparr>"
    using assms by (simp add: parse_token_eq_Inr)
  then show ?thesis
    using own hash call scripted_KeyAgreement [of tok, folded w1_def]
    by (simp add: PINToken_def ready [of ?k scripted] bit_numeral_word_iff)
qed

theorem KeyAgreement_on_curve_witness:
  "KeyAgreement (token_cbor []) (scripted_key 5 4) 1 two_replies \<noteq> None \<and>
   NewPublicKey (pub_Bytes G_public) = Inr G_public"
  using KeyAgreement_on_curve [OF scripted_KeyAgreement [of "[]"]] by (simp add: scripted_KeyAgreement)

text \<open>
  C39. A token that \<open>PINToken\<close> returns belongs to the protocol asked for, which is one of the two;
  it is 32 bytes, or 16 under protocol one, and so valid; and what it authenticates has a tag of
  the length an authenticator of that protocol expects.
\<close>

theorem PINToken_token:
  assumes "PINToken C S k pin proto perms rpID w = Some (Inr t, w1)"
  shows "Token_Protocol t = proto \<and> proto \<in> {1, 2} \<and> Token_Valid t \<and>
    (length (t_raw t) = 32 \<or> proto = 1 \<and> length (t_raw t) = 16) \<and>
    length (authParam t data) = (if proto = 1 then 16 else 32)"
  by (rule PINToken_shape [OF assms])

theorem PINToken_token_witness:
  "\<exists>t w. PINToken (token_cbor (replicate 32 7)) fixed_seams (scripted_key 5 4) ''1234'' 1 0 [] two_replies =
     Some (Inr t, w) \<and> Token_Protocol t = 1 \<and> length (authParam t [1]) = 16"
proof -
  obtain t w where run: "PINToken (token_cbor (replicate 32 7)) fixed_seams (scripted_key 5 4) ''1234'' 1 0 []
      two_replies = Some (Inr t, w)"
    using scripted_PINToken [of "replicate 32 7"] by auto
  with PINToken_token [OF run, of "[1]"] show ?thesis by auto
qed

text \<open>
  C9. The exchange of a PIN for a token, against an authenticator with the private key \<open>a\<close> that
  offered its public key: the platform sends its own fresh public key, the half hash of the PIN
  sealed under keys the authenticator derives from its own private key, and opens with the same
  keys the token it is sent, which is the token returned.  The hypothesis on the private keys is
  the law of key agreement.
\<close>

theorem PINToken_exchange:
  assumes ok: "PINToken C S k pin proto perms rpID w = Some (Inr t, w3)"
    and offered: "KeyAgreement C k proto w = Some (Inr (priv_PublicKey a), w1)"
    and law: "\<forall>d w2. sm_newECDHKey S w1 = (Inr d, w2) \<longrightarrow>
      priv_ECDH d (priv_PublicKey a) = priv_ECDH a (priv_PublicKey d)"
  shows "\<exists>d own secret keys hashEnc w2 body raw m enc.
    fst (sm_newECDHKey S w1) = Inr d \<and> ecdhToCOSE (priv_PublicKey d) = Inr own \<and>
    priv_ECDH a (priv_PublicKey d) = Inr secret \<and> deriveKeys (sm_hkdfKey S) proto secret = Inr keys \<and>
    decrypt keys hashEnc = Inr (take 16 (sha256 (bytes_of_string pin))) \<and>
    cborCall C k CmdClientPIN (pin_request proto own hashEnc perms rpID) w2 = Some (Inr body, w3) \<and>
    cb_map_u64 C body = Inr raw \<and> raw 2 = Some m \<and> cb_bytes C m = Inr enc \<and>
    decrypt keys enc = Inr (t_raw t) \<and> t_keys t = keys"
proof (rule PINToken_Inr [OF ok])
  fix pub v1 d v2 own secret keys hashEnc v3 body
  assume "KeyAgreement C k proto w = Some (Inr pub, v1)"
  with offered have same: "pub = priv_PublicKey a" "v1 = w1" by simp_all
  assume fresh: "sm_newECDHKey S v1 = (Inr d, v2)" and "ecdhToCOSE (priv_PublicKey d) = Inr own"
    and secret: "priv_ECDH d pub = Inr secret"
    and "deriveKeys (sm_hkdfKey S) proto secret = Inr keys"
    and hash: "pinHash S keys pin v2 = Some (Inr hashEnc, v3)"
    and "cborCall C k CmdClientPIN (pin_request proto own hashEnc perms rpID) v3 = Some (Inr body, w3)"
    and token: "parse_token C keys proto body = Inr t"
  moreover have "priv_ECDH a (priv_PublicKey d) = Inr secret"
    using law fresh secret same by simp
  moreover have "decrypt keys hashEnc = Inr (take 16 (sha256 (bytes_of_string pin)))"
    using pinHash_eq_Inr [OF hash] by simp
  moreover from token obtain raw m enc where "cb_map_u64 C body = Inr raw" "raw 2 = Some m"
    "cb_bytes C m = Inr enc" "decrypt keys enc = Inr (t_raw t)" "t_keys t = keys"
    by (auto simp: parse_token_eq_Inr)
  moreover have "fst (sm_newECDHKey S w1) = Inr d" using fresh same by simp
  ultimately show ?thesis by blast
qed

theorem PINToken_exchange_witness:
  "\<exists>w3 own hashEnc w2 body. PINToken (token_cbor (replicate 32 7)) fixed_seams (scripted_key 5 4) ''1234'' 1 0 []
       two_replies = Some (Inr \<lparr>t_keys = one_keys Gx_bytes, t_raw = replicate 32 7\<rparr>, w3) \<and>
     decrypt (one_keys Gx_bytes) hashEnc = Inr (take 16 (sha256 (bytes_of_string ''1234''))) \<and>
     cborCall (token_cbor (replicate 32 7)) (scripted_key 5 4) CmdClientPIN
       (pin_request 1 own hashEnc 0 []) w2 = Some (Inr body, w3)"
proof -
  obtain w3 where run: "PINToken (token_cbor (replicate 32 7)) fixed_seams (scripted_key 5 4) ''1234'' 1 0 []
      two_replies = Some (Inr \<lparr>t_keys = one_keys Gx_bytes, t_raw = replicate 32 7\<rparr>, w3)"
    using scripted_PINToken [of "replicate 32 7"] by auto
  have offered: "\<exists>w1. KeyAgreement (token_cbor (replicate 32 7)) (scripted_key 5 4) 1 two_replies =
      Some (Inr (priv_PublicKey sample_private), w1)"
    by (simp add: scripted_KeyAgreement)
  then obtain w1 where offered: "KeyAgreement (token_cbor (replicate 32 7)) (scripted_key 5 4) 1 two_replies =
      Some (Inr (priv_PublicKey sample_private), w1)" ..
  have "\<forall>d w2. sm_newECDHKey fixed_seams w1 = (Inr d, w2) \<longrightarrow>
      priv_ECDH d (priv_PublicKey sample_private) = priv_ECDH sample_private (priv_PublicKey d)"
    by simp
  from PINToken_exchange [OF run offered this] run show ?thesis by auto
qed

text \<open>
  C35. Of the PIN, the exchange depends on nothing but whether it is empty and the first half of its
  SHA-256: there is one computation that, given those sixteen bytes, does all \<open>PINToken\<close> does.
\<close>

theorem PINToken_sees_half_a_hash:
  "\<exists>exchange. \<forall>pin. PINToken C S k pin proto perms rpID =
     exchange (pin = []) (take 16 (sha256 (bytes_of_string pin)))"
proof -
  have "PINToken C S k pin proto perms rpID = PINToken C S k pin' proto perms rpID"
    if "(pin = []) = (pin' = [])"
      "take 16 (sha256 (bytes_of_string pin)) = take 16 (sha256 (bytes_of_string pin'))" for pin pin'
  proof -
    have "pinHash S keys pin = pinHash S keys pin'" for keys
      using that by (simp add: pinHash_def Let_def)
    then show ?thesis using that by (simp add: PINToken_def)
  qed
  then show ?thesis
    by (intro exI [of _ "\<lambda>e h. PINToken C S k
      (SOME pin. (pin = []) = e \<and> take 16 (sha256 (bytes_of_string pin)) = h) proto perms rpID"])
      (metis (mono_tags, lifting) someI)
qed

end
