(* ===== verification/Credential.thy ===== *)
theory Credential
  imports ClientPin
begin

text \<open>
  \<open>credential.go\<close>: registering a credential and proving one is held.  Each command is guards that
  are checked before anything is sent, a request built by a pure function, one CTAP2 call, and a
  pure reading of the reply.
\<close>

section \<open>Requests and replies\<close>

definition CmdMakeCredential :: byte where "CmdMakeCredential = 0x01"
definition CmdGetAssertion :: byte where "CmdGetAssertion = 0x02"

record RelyingParty =
  rp_ID :: string
  rp_Name :: string

record User =
  u_ID :: bytes
  u_Name :: string
  u_DisplayName :: string

record credential =
  c_Type :: string
  c_ID :: bytes
  c_Transports :: "string list"

definition zero_credential :: credential where
  "zero_credential = \<lparr>c_Type = [], c_ID = [], c_Transports = []\<rparr>"

text \<open>\<open>Options\<close>, a Go map, is its entries, each key once, in some order.\<close>

record MakeCredentialRequest =
  mr_ClientDataHash :: bytes
  mr_RP :: RelyingParty
  mr_User :: User
  mr_Algorithms :: "int list"
  mr_Exclude :: "credential list"
  mr_Options :: "(string \<times> bool) list"
  mr_Token :: Token

record Attestation =
  at_Format :: string
  at_AuthData :: bytes
  at_Parsed :: auth_data
  at_Statement :: bytes

record GetAssertionRequest =
  gr_RPID :: string
  gr_ClientDataHash :: bytes
  gr_Allow :: "credential list"
  gr_Options :: "(string \<times> bool) list"
  gr_Token :: Token

record Assertion =
  as_Credential :: credential
  as_AuthData :: bytes
  as_Parsed :: auth_data
  as_Signature :: bytes
  as_UserID :: bytes
  as_Available :: u64

definition mcClientDataHash :: int where "mcClientDataHash = 0x01"
definition mcRP :: int where "mcRP = 0x02"
definition mcUser :: int where "mcUser = 0x03"
definition mcPubKeyCredParams :: int where "mcPubKeyCredParams = 0x04"
definition mcExcludeList :: int where "mcExcludeList = 0x05"
definition mcOptions :: int where "mcOptions = 0x07"
definition mcPinUvAuthParam :: int where "mcPinUvAuthParam = 0x08"
definition mcPinUvAuthProtocol :: int where "mcPinUvAuthProtocol = 0x09"

definition mcRespFmt :: u64 where "mcRespFmt = 0x01"
definition mcRespAuthData :: u64 where "mcRespAuthData = 0x02"
definition mcRespAttStmt :: u64 where "mcRespAttStmt = 0x03"

definition gaRPID :: int where "gaRPID = 0x01"
definition gaClientDataHash :: int where "gaClientDataHash = 0x02"
definition gaAllowList :: int where "gaAllowList = 0x03"
definition gaOptions :: int where "gaOptions = 0x05"
definition gaPinUvAuthParam :: int where "gaPinUvAuthParam = 0x06"
definition gaPinUvAuthProtocol :: int where "gaPinUvAuthProtocol = 0x07"

definition gaRespCredential :: u64 where "gaRespCredential = 0x01"
definition gaRespAuthData :: u64 where "gaRespAuthData = 0x02"
definition gaRespSignature :: u64 where "gaRespSignature = 0x03"
definition gaRespUser :: u64 where "gaRespUser = 0x04"
definition gaRespAvailable :: u64 where "gaRespAvailable = 0x05"

lemmas mc_defs = mcClientDataHash_def mcRP_def mcUser_def mcPubKeyCredParams_def mcExcludeList_def
  mcOptions_def mcPinUvAuthParam_def mcPinUvAuthProtocol_def mcRespFmt_def mcRespAuthData_def
  mcRespAttStmt_def

lemmas ga_defs = gaRPID_def gaClientDataHash_def gaAllowList_def gaOptions_def gaPinUvAuthParam_def
  gaPinUvAuthProtocol_def gaRespCredential_def gaRespAuthData_def gaRespSignature_def
  gaRespUser_def gaRespAvailable_def

section \<open>Parts of a request\<close>

definition userMap :: "User \<Rightarrow> string \<Rightarrow> gval option" where
  "userMap u =
     (let m = [''id'' \<mapsto> GBytes (u_ID u)];
          m = (if u_Name u \<noteq> [] then m(''name'' \<mapsto> GText (u_Name u)) else m)
      in if u_DisplayName u \<noteq> [] then m(''displayName'' \<mapsto> GText (u_DisplayName u)) else m)"

definition descriptor :: "credential \<Rightarrow> string \<Rightarrow> gval option" where
  "descriptor c =
     (let t = c_Type c;
          t = (if t = [] then ''public-key'' else t);
          d = [''type'' \<mapsto> GText t, ''id'' \<mapsto> GBytes (c_ID c)]
      in if 0 < length (c_Transports c)
         then d(''transports'' \<mapsto> GArray (map GText (c_Transports c))) else d)"

definition descriptors :: "credential list \<Rightarrow> gval" where
  "descriptors creds = GArray (map (\<lambda>c. GTextMap (descriptor c)) creds)"

definition options_value :: "(string \<times> bool) list \<Rightarrow> gval" where
  "options_value opts = GTextMap (\<lambda>k. map_option GBool (map_of opts k))"

section \<open>MakeCredential\<close>

definition mc_request :: "MakeCredentialRequest \<Rightarrow> int \<Rightarrow> gval option" where
  "mc_request r =
     (let algs = mr_Algorithms r;
          algs = (if length algs = 0 then [AlgES256] else algs);
          params = map (\<lambda>a. GTextMap [''alg'' \<mapsto> GInt a, ''type'' \<mapsto> GText ''public-key'']) algs;
          req = [mcClientDataHash \<mapsto> GBytes (mr_ClientDataHash r),
                 mcRP \<mapsto> GTextMap [''id'' \<mapsto> GText (rp_ID (mr_RP r)), ''name'' \<mapsto> GText (rp_Name (mr_RP r))],
                 mcUser \<mapsto> GTextMap (userMap (mr_User r)),
                 mcPubKeyCredParams \<mapsto> GArray params];
          req = (if 0 < length (mr_Exclude r) then req(mcExcludeList \<mapsto> descriptors (mr_Exclude r)) else req);
          req = (if 0 < length (mr_Options r) then req(mcOptions \<mapsto> options_value (mr_Options r)) else req)
      in if Token_Valid (mr_Token r)
         then req(mcPinUvAuthParam \<mapsto> GBytes (authParam (mr_Token r) (mr_ClientDataHash r)),
                  mcPinUvAuthProtocol \<mapsto> GInt (Token_Protocol (mr_Token r)))
         else req)"

definition parse_attestation :: "cbor \<Rightarrow> bytes \<Rightarrow> Attestation outcome" where
  "parse_attestation C body =
     bindR (wrapExt (\<lambda>e. Request Registration (ReplyNotMap e)) (cb_map_u64 C body)) (\<lambda>raw.
     bindR (field raw mcRespFmt (cb_text C) ''attestation format'') (\<lambda>format.
     bindR (field raw mcRespAuthData (cb_bytes C) ''authenticator data'') (\<lambda>authData.
     if length authData = 0 then Inl (Request Registration NoAuthenticatorData)
     else bindR (ParseAuthData C authData) (\<lambda>parsed.
     if \<not> Flags_Has (ad_Flags parsed) FlagAT then Inl (Request Registration NoCredentialInIt)
     else let att = \<lparr>at_Format = format, at_AuthData = authData, at_Parsed = parsed, at_Statement = []\<rparr> in
       case raw mcRespAttStmt of
         Some r \<Rightarrow> Inr (att\<lparr>at_Statement := r\<rparr>)
       | None \<Rightarrow> Inr att))))"

definition MakeCredential ::
    "cbor \<Rightarrow> 'w key \<Rightarrow> MakeCredentialRequest \<Rightarrow> ('w, Attestation) io" where
  "MakeCredential C k r =
     bindIO (ctap2Ready k) (\<lambda>_.
     if length (mr_ClientDataHash r) = 0 then failIO (Request Registration NoClientDataHash)
     else if rp_ID (mr_RP r) = [] then failIO (Request Registration NoRelyingParty)
     else if length (u_ID (mr_User r)) = 0 then failIO (Request Registration NoUserHandle)
     else
     bindIO (cborCall C k CmdMakeCredential (mc_request r)) (\<lambda>body.
     liftIO (parse_attestation C body)))"

section \<open>GetAssertion\<close>

definition ga_request :: "GetAssertionRequest \<Rightarrow> int \<Rightarrow> gval option" where
  "ga_request r =
     (let req = [gaRPID \<mapsto> GText (gr_RPID r), gaClientDataHash \<mapsto> GBytes (gr_ClientDataHash r)];
          req = (if 0 < length (gr_Allow r) then req(gaAllowList \<mapsto> descriptors (gr_Allow r)) else req);
          req = (if 0 < length (gr_Options r) then req(gaOptions \<mapsto> options_value (gr_Options r)) else req)
      in if Token_Valid (gr_Token r)
         then req(gaPinUvAuthParam \<mapsto> GBytes (authParam (gr_Token r) (gr_ClientDataHash r)),
                  gaPinUvAuthProtocol \<mapsto> GInt (Token_Protocol (gr_Token r)))
         else req)"

text \<open>An optional member of the reply: it is decoded if it is there.\<close>

definition optional_member ::
    "(u64 \<Rightarrow> bytes option) \<Rightarrow> u64 \<Rightarrow> (bytes \<Rightarrow> ext_error + 'a) \<Rightarrow> (ext_error \<Rightarrow> error) \<Rightarrow> 'b \<Rightarrow>
     ('a \<Rightarrow> 'b \<Rightarrow> 'b) \<Rightarrow> 'b outcome" where
  "optional_member raw key dec bad a update = (case raw key of
     None \<Rightarrow> Inr a
   | Some m \<Rightarrow> bindR (wrapExt bad (dec m)) (\<lambda>v. Inr (update v a)))"

definition parse_assertion :: "cbor \<Rightarrow> bytes \<Rightarrow> Assertion outcome" where
  "parse_assertion C body =
     bindR (wrapExt (\<lambda>e. Request AssertionRequest (ReplyNotMap e)) (cb_map_u64 C body)) (\<lambda>raw.
     bindR (field raw gaRespAuthData (cb_bytes C) ''authenticator data'') (\<lambda>authData.
     if length authData = 0 then Inl (Request AssertionRequest NoAuthenticatorData)
     else bindR (ParseAuthData C authData) (\<lambda>parsed.
     bindR (field raw gaRespSignature (cb_bytes C) ''signature'') (\<lambda>signature.
     if length signature = 0 then Inl (Request AssertionRequest NoSignature)
     else
     let a = \<lparr>as_Credential = zero_credential, as_AuthData = authData, as_Parsed = parsed,
              as_Signature = signature, as_UserID = [], as_Available = 0\<rparr> in
     bindR (optional_member raw gaRespCredential (cb_descriptor C)
       (\<lambda>e. Request AssertionRequest (ReplyCredential e)) a
       (\<lambda>(ty, cid) a. a\<lparr>as_Credential := \<lparr>c_Type = ty, c_ID = cid, c_Transports = []\<rparr>\<rparr>)) (\<lambda>a.
     bindR (optional_member raw gaRespUser (cb_user C)
       (\<lambda>e. Request AssertionRequest (ReplyUser e)) a (\<lambda>uid a. a\<lparr>as_UserID := uid\<rparr>)) (\<lambda>a.
     optional_member raw gaRespAvailable (cb_uint C)
       (\<lambda>e. Request AssertionRequest (ReplyCount e)) a (\<lambda>n a. a\<lparr>as_Available := n\<rparr>)))))))"

definition GetAssertion :: "cbor \<Rightarrow> 'w key \<Rightarrow> GetAssertionRequest \<Rightarrow> ('w, Assertion) io" where
  "GetAssertion C k r =
     bindIO (ctap2Ready k) (\<lambda>_.
     if gr_RPID r = [] then failIO (Request AssertionRequest NoRelyingParty)
     else if length (gr_ClientDataHash r) = 0 then failIO (Request AssertionRequest NoClientDataHash)
     else
     bindIO (cborCall C k CmdGetAssertion (ga_request r)) (\<lambda>body.
     liftIO (parse_assertion C body)))"

section \<open>Lemmas\<close>

lemma if_guard [go_bind]:
  "(if b then Inl e else m) = Inr x \<longleftrightarrow> \<not> b \<and> m = Inr x"
  by simp

lemma if_guardIO [go_bind]:
  "(if b then failIO e else m) w = Some (Inr y, w1) \<longleftrightarrow> \<not> b \<and> m w = Some (Inr y, w1)"
  by simp

text \<open>What a reply's credential is decoded to.\<close>

definition reply_credential :: "cbor \<Rightarrow> bytes \<Rightarrow> ext_error + credential" where
  "reply_credential C m = (case cb_descriptor C m of Inl e \<Rightarrow> Inl e
     | Inr (ty, cid) \<Rightarrow> Inr \<lparr>c_Type = ty, c_ID = cid, c_Transports = []\<rparr>)"

lemma reply_credential_Inr:
  "reply_credential C m = Inr c \<longleftrightarrow> (\<exists>ty cid. cb_descriptor C m = Inr (ty, cid) \<and>
     c = \<lparr>c_Type = ty, c_ID = cid, c_Transports = []\<rparr>)"
  by (auto simp: reply_credential_def split: sum.split)

lemma optional_member_Inr:
  assumes "upd z a = a"
  shows "optional_member raw key dec bad a upd = Inr b \<longleftrightarrow>
    (\<exists>v. member_is raw key dec z v \<and> b = upd v a)"
  using assms by (cases "raw key") (auto simp: optional_member_def member_is_def go_bind)

lemma optional_credential:
  "optional_member raw key (cb_descriptor C) bad a
     (\<lambda>(ty, cid) a. a\<lparr>as_Credential := \<lparr>c_Type = ty, c_ID = cid, c_Transports = []\<rparr>\<rparr>) =
   optional_member raw key (reply_credential C) bad a (\<lambda>c a. a\<lparr>as_Credential := c\<rparr>)"
  by (auto simp: optional_member_def reply_credential_def wrapExt_def bindR_def split: option.split sum.split)

lemma ex_image: "(\<exists>x. (\<exists>c. P c \<and> x = f c) \<and> Q x) \<longleftrightarrow> (\<exists>c. P c \<and> Q (f c))"
  by blast

lemma optional_members_Inr:
  "as_Credential a = zero_credential \<Longrightarrow>
     optional_member raw key (reply_credential C) bad a (\<lambda>c a. a\<lparr>as_Credential := c\<rparr>) = Inr b \<longleftrightarrow>
     (\<exists>c. member_is raw key (reply_credential C) zero_credential c \<and> b = a\<lparr>as_Credential := c\<rparr>)"
  "as_UserID a = [] \<Longrightarrow>
     optional_member raw key (cb_user C) bad a (\<lambda>uid a. a\<lparr>as_UserID := uid\<rparr>) = Inr b \<longleftrightarrow>
     (\<exists>u. member_is raw key (cb_user C) [] u \<and> b = a\<lparr>as_UserID := u\<rparr>)"
  "as_Available a = 0 \<Longrightarrow>
     optional_member raw key (cb_uint C) bad a (\<lambda>n a. a\<lparr>as_Available := n\<rparr>) = Inr b \<longleftrightarrow>
     (\<exists>n. member_is raw key (cb_uint C) 0 n \<and> b = a\<lparr>as_Available := n\<rparr>)"
  by (intro optional_member_Inr, cases a, simp)+

lemma parse_attestation_eq_Inr:
  "parse_attestation C body = Inr att \<longleftrightarrow> (\<exists>raw f d. cb_map_u64 C body = Inr raw \<and>
     raw 1 = Some f \<and> cb_text C f = Inr (at_Format att) \<and>
     raw 2 = Some d \<and> cb_bytes C d = Inr (at_AuthData att) \<and> at_AuthData att \<noteq> [] \<and>
     ParseAuthData C (at_AuthData att) = Inr (at_Parsed att) \<and> bit (ad_Flags (at_Parsed att)) 6 \<and>
     at_Statement att = (case raw 3 of None \<Rightarrow> [] | Some r \<Rightarrow> r))"
proof -
  have stmt: "(case st of None \<Rightarrow> Inr a | Some r \<Rightarrow> Inr (a\<lparr>at_Statement := r\<rparr>)) = Inr att' \<longleftrightarrow>
      att' = a\<lparr>at_Statement := (case st of None \<Rightarrow> [] | Some r \<Rightarrow> r)\<rparr>" if "at_Statement a = []" for st a att'
    using that by (cases a) (auto split: option.split)
  show ?thesis
    by (cases att) (simp add: parse_attestation_def Let_def go_bind mc_defs Flags_Has_bit stmt, auto)
qed

lemma parse_assertion_eq_Inr:
  "parse_assertion C body = Inr a \<longleftrightarrow> (\<exists>raw d s. cb_map_u64 C body = Inr raw \<and>
     raw 2 = Some d \<and> cb_bytes C d = Inr (as_AuthData a) \<and> as_AuthData a \<noteq> [] \<and>
     ParseAuthData C (as_AuthData a) = Inr (as_Parsed a) \<and>
     raw 3 = Some s \<and> cb_bytes C s = Inr (as_Signature a) \<and> as_Signature a \<noteq> [] \<and>
     member_is raw 1 (reply_credential C) zero_credential (as_Credential a) \<and>
     member_is raw 4 (cb_user C) [] (as_UserID a) \<and>
     member_is raw 5 (cb_uint C) 0 (as_Available a))"
  by (cases a)
     (simp add: parse_assertion_def Let_def go_bind ga_defs optional_credential optional_members_Inr ex_image,
      auto simp: optional_members_Inr)

section \<open>Properties\<close>

text \<open>
  C19. A registration succeeds exactly when the key speaks CTAP2, the request names a client data
  hash, a relying party and a user, the one command carrying the request is answered, and the
  reply's map holds a format and authenticator data that parses and has a credential in it; and
  then the attestation is what the map holds, the data kept raw as well as parsed.
\<close>

theorem MakeCredential_accepts:
  "MakeCredential C k r w = Some (Inr att, w1) \<longleftrightarrow>
     bit (k_caps k) 2 \<and> mr_ClientDataHash r \<noteq> [] \<and> rp_ID (mr_RP r) \<noteq> [] \<and> u_ID (mr_User r) \<noteq> [] \<and>
     (\<exists>params body raw f d. cb_marshal C (GIntMap (mc_request r)) = Inr params \<and>
       CBOR k 0x01 params w = Some (Inr body, w1) \<and> cb_map_u64 C body = Inr raw \<and>
       raw 1 = Some f \<and> cb_text C f = Inr (at_Format att) \<and>
       raw 2 = Some d \<and> cb_bytes C d = Inr (at_AuthData att) \<and> at_AuthData att \<noteq> [] \<and>
       ParseAuthData C (at_AuthData att) = Inr (at_Parsed att) \<and> bit (ad_Flags (at_Parsed att)) 6 \<and>
       at_Statement att = (case raw 3 of None \<Rightarrow> [] | Some r \<Rightarrow> r))"
  using caps.has_bit [of 2 "k_caps k"]
  by (simp add: MakeCredential_def go_bind CapCBOR_def cborCall_def parse_attestation_eq_Inr
      CmdMakeCredential_def, blast)

text \<open>
  C20. An assertion succeeds exactly when the key speaks CTAP2, the request names a relying party
  and a client data hash, the one command carrying it is answered, and the reply holds
  authenticator data that parses and a signature that is not empty; the credential, the user
  handle and the count are what the reply says, or zero where it says nothing.
\<close>

theorem GetAssertion_accepts:
  "GetAssertion C k r w = Some (Inr a, w1) \<longleftrightarrow>
     bit (k_caps k) 2 \<and> gr_RPID r \<noteq> [] \<and> gr_ClientDataHash r \<noteq> [] \<and>
     (\<exists>params body raw d s. cb_marshal C (GIntMap (ga_request r)) = Inr params \<and>
       CBOR k 0x02 params w = Some (Inr body, w1) \<and> cb_map_u64 C body = Inr raw \<and>
       raw 2 = Some d \<and> cb_bytes C d = Inr (as_AuthData a) \<and> as_AuthData a \<noteq> [] \<and>
       ParseAuthData C (as_AuthData a) = Inr (as_Parsed a) \<and>
       raw 3 = Some s \<and> cb_bytes C s = Inr (as_Signature a) \<and> as_Signature a \<noteq> [] \<and>
       member_is raw 1 (reply_credential C) zero_credential (as_Credential a) \<and>
       member_is raw 4 (cb_user C) [] (as_UserID a) \<and>
       member_is raw 5 (cb_uint C) 0 (as_Available a))"
  using caps.has_bit [of 2 "k_caps k"]
  by (simp add: GetAssertion_def go_bind CapCBOR_def cborCall_def parse_assertion_eq_Inr
      CmdGetAssertion_def, blast)

text \<open>
  The registration request, member by member: what was given is there, what was not given is
  absent rather than empty, ES256 is asked for when no algorithm is named, and the request carries
  an authentication of the client data hash, with the token's protocol, exactly when its token is
  valid.
\<close>

lemma mc_request_members:
  "mc_request r = (\<lambda>i.
     if i = 1 then Some (GBytes (mr_ClientDataHash r))
     else if i = 2 then Some (GTextMap [''id'' \<mapsto> GText (rp_ID (mr_RP r)), ''name'' \<mapsto> GText (rp_Name (mr_RP r))])
     else if i = 3 then Some (GTextMap (\<lambda>s.
       if s = ''id'' then Some (GBytes (u_ID (mr_User r)))
       else if s = ''name'' \<and> u_Name (mr_User r) \<noteq> [] then Some (GText (u_Name (mr_User r)))
       else if s = ''displayName'' \<and> u_DisplayName (mr_User r) \<noteq> []
       then Some (GText (u_DisplayName (mr_User r))) else None))
     else if i = 4 then Some (GArray (map (\<lambda>a. GTextMap [''alg'' \<mapsto> GInt a, ''type'' \<mapsto> GText ''public-key''])
       (if mr_Algorithms r = [] then [-7] else mr_Algorithms r)))
     else if i = 5 \<and> mr_Exclude r \<noteq> [] then Some (descriptors (mr_Exclude r))
     else if i = 7 \<and> mr_Options r \<noteq> [] then Some (options_value (mr_Options r))
     else if i = 8 \<and> Token_Valid (mr_Token r)
     then Some (GBytes (authParam (mr_Token r) (mr_ClientDataHash r)))
     else if i = 9 \<and> Token_Valid (mr_Token r) then Some (GInt (Token_Protocol (mr_Token r)))
     else None)"
proof -
  have "userMap u = (\<lambda>s. if s = ''id'' then Some (GBytes (u_ID u))
       else if s = ''name'' \<and> u_Name u \<noteq> [] then Some (GText (u_Name u))
       else if s = ''displayName'' \<and> u_DisplayName u \<noteq> [] then Some (GText (u_DisplayName u)) else None)" for u
    by (auto simp: userMap_def fun_eq_iff Let_def)
  then show ?thesis
    by (auto simp: mc_request_def mc_defs AlgES256_def fun_eq_iff Let_def)
qed

text \<open>
  The assertion request likewise; the token's members are under other numbers than in a
  registration, and no user and no algorithm is ever sent.
\<close>

lemma ga_request_members:
  "ga_request r = (\<lambda>i.
     if i = 1 then Some (GText (gr_RPID r))
     else if i = 2 then Some (GBytes (gr_ClientDataHash r))
     else if i = 3 \<and> gr_Allow r \<noteq> [] then Some (descriptors (gr_Allow r))
     else if i = 5 \<and> gr_Options r \<noteq> [] then Some (options_value (gr_Options r))
     else if i = 6 \<and> Token_Valid (gr_Token r)
     then Some (GBytes (authParam (gr_Token r) (gr_ClientDataHash r)))
     else if i = 7 \<and> Token_Valid (gr_Token r) then Some (GInt (Token_Protocol (gr_Token r)))
     else None)"
  by (auto simp: ga_request_def ga_defs fun_eq_iff Let_def)

end
