(* ===== verification/Conduct.thy ===== *)
theory Conduct
  imports Credential
begin

text \<open>
  What every operation on a key has in common, whatever the key, the library and the request: it
  does not panic, it returns when the transport has a deadline, and it only sends and receives.
  Each is a predicate on operations that sequencing preserves, so that it is proved of
  \<open>roundTrip\<close> and carried to the commands.
\<close>

section \<open>Three kinds of good conduct\<close>

definition calm :: "('w, 'a) io \<Rightarrow> bool" where
  "calm op \<longleftrightarrow> (\<forall>w r w2. op w = Some (r, w2) \<longrightarrow> \<not> panics r)"

definition ends :: "('w, 'a) io \<Rightarrow> bool" where
  "ends op \<longleftrightarrow> (\<forall>w. op w \<noteq> None)"

definition talks :: "'w transport \<Rightarrow> ('w, 'a) io \<Rightarrow> bool" where
  "talks T op \<longleftrightarrow> (\<forall>w r w2. op w = Some (r, w2) \<longrightarrow> (\<exists>evs. trace T w evs w2))"

text \<open>A transport under a context that ends: whatever its state, some later \<open>Receive\<close> fails.\<close>

definition deadline :: "'w transport \<Rightarrow> bool" where
  "deadline T \<longleftrightarrow> (\<forall>w. \<exists>rs e w2. trace T w (received_all rs @ [Received (Inl e)]) w2)"

named_theorems conduct \<open>closure of the three predicates under the ways of building an operation\<close>

lemma calmD: "calm op \<Longrightarrow> op w = Some (r, w2) \<Longrightarrow> \<not> panics r"
  unfolding calm_def by blast

lemma calm_basic [conduct]:
  "calm (retIO x)" "\<not> panics r \<Longrightarrow> calm (liftIO r)" "(\<And>p. e \<noteq> Panic p) \<Longrightarrow> calm (failIO e)"
  by (auto simp: calm_def retIO_def liftIO_def failIO_def)

lemma calm_bind [conduct]: "calm m \<Longrightarrow> (\<And>x. calm (f x)) \<Longrightarrow> calm (bindIO m f)"
  by (fastforce simp: calm_def bindIO_def split: option.splits sum.splits)

lemma ends_basic [conduct]: "ends (retIO x)" "ends (liftIO r)" "ends (failIO e)"
  by (auto simp: ends_def retIO_def liftIO_def failIO_def)

lemma ends_bind [conduct]: "ends m \<Longrightarrow> (\<And>x. ends (f x)) \<Longrightarrow> ends (bindIO m f)"
  by (fastforce simp: ends_def bindIO_def split: option.splits sum.splits)

lemma talks_basic [conduct]: "talks T (retIO x)" "talks T (liftIO r)" "talks T (failIO e)"
  by (auto simp: talks_def retIO_def liftIO_def failIO_def intro: trace.quiet)

lemma talks_bind [conduct]:
  assumes "talks T m" and "\<And>x. talks T (f x)"
  shows "talks T (bindIO m f)"
  unfolding talks_def
proof (intro allI impI)
  fix w r w2
  assume run: "bindIO m f w = Some (r, w2)"
  show "\<exists>evs. trace T w evs w2"
  proof (cases r)
    case (Inl e)
    with run consider "m w = Some (Inl e, w2)" | x w1 where "m w = Some (Inr x, w1)" "f x w1 = Some (Inl e, w2)"
      by (auto simp: bindIO_eq_Inl)
    then show ?thesis using assms unfolding talks_def by cases (blast, metis trace_append)
  next
    case (Inr y)
    with run obtain x w1 where "m w = Some (Inr x, w1)" "f x w1 = Some (Inr y, w2)"
      by (auto simp: bindIO_eq_Inr)
    then show ?thesis using assms unfolding talks_def by (metis trace_append)
  qed
qed

lemma conduct_if [conduct]:
  "(b \<Longrightarrow> calm m) \<Longrightarrow> (\<not> b \<Longrightarrow> calm n) \<Longrightarrow> calm (if b then m else n)"
  "ends m \<Longrightarrow> ends n \<Longrightarrow> ends (if b then m else n)"
  "talks T m \<Longrightarrow> talks T n \<Longrightarrow> talks T (if b then m else n)"
  by simp_all

section \<open>Results that are not panics\<close>

named_theorems no_panic \<open>closure of \<open>panics\<close> under the ways of building a result\<close>

lemma no_panic_bind [no_panic]:
  "\<not> panics m \<Longrightarrow> (\<And>x. m = Inr x \<Longrightarrow> \<not> panics (f x)) \<Longrightarrow> \<not> panics (bindR m f)"
  by (auto simp: panics_bindR)

lemma no_panic_wrapExt [no_panic]: "(\<And>e p. c e \<noteq> Panic p) \<Longrightarrow> \<not> panics (wrapExt c m)"
  by (cases m) auto

lemma no_panic_wrapErr [no_panic]: "\<not> panics m \<Longrightarrow> (\<And>e p. c e \<noteq> Panic p) \<Longrightarrow> \<not> panics (wrapErr c m)"
  by (cases "(c, m)" rule: wrapErr.cases) auto

lemma no_panic_basic [no_panic]: "\<not> panics (Inr x)" "(\<And>p. e \<noteq> Panic p) \<Longrightarrow> \<not> panics (Inl e)"
  by auto

lemma no_panic_if [no_panic]: "(b \<Longrightarrow> \<not> panics m) \<Longrightarrow> (\<not> b \<Longrightarrow> \<not> panics n) \<Longrightarrow> \<not> panics (if b then m else n)"
  by simp

lemma no_panic_option [no_panic]:
  "\<not> panics n \<Longrightarrow> (\<And>x. opt = Some x \<Longrightarrow> \<not> panics (f x)) \<Longrightarrow> \<not> panics (case opt of None \<Rightarrow> n | Some x \<Rightarrow> f x)"
  by (cases opt) auto

lemma no_panic_field [no_panic]: "\<not> panics (field raw key dec what)"
  unfolding field_def by (intro no_panic) auto

lemma no_panic_info_get [no_panic]: "\<not> panics (info_get raw key dec z)"
  unfolding info_get_def by (intro no_panic) auto

lemma no_panic_member [no_panic]:
  "(\<And>p. lacks \<noteq> Panic p) \<Longrightarrow> (\<And>e p. bad e \<noteq> Panic p) \<Longrightarrow> \<not> panics (cose_member m label dec lacks bad)"
  unfolding cose_member_def by (intro no_panic) auto

lemma parseInfo_no_panic: "\<not> panics (parseInfo C body)"
  unfolding parseInfo_def Let_def by (intro no_panic) auto

lemma parse_retries_no_panic: "\<not> panics (parse_retries C body)"
  unfolding parse_retries_def Let_def by (intro no_panic) auto

lemma coseToECDH_no_panic: "\<not> panics (coseToECDH C m)"
  unfolding coseToECDH_def key_coordinate_def Let_def by (intro no_panic) auto

lemma parse_agreement_no_panic: "\<not> panics (parse_agreement C body)"
  unfolding parse_agreement_def by (intro no_panic coseToECDH_no_panic) auto

lemma decrypt_no_panic: "\<not> panics (decrypt k c)"
  by (simp add: decrypt_eq Let_def)

lemma parse_token_no_panic: "\<not> panics (parse_token C keys proto body)"
  unfolding parse_token_def by (intro no_panic decrypt_no_panic) auto

lemma ecdhToCOSE_no_panic: "\<not> panics (ecdhToCOSE pub)"
  by (auto simp: ecdhToCOSE_eq split: list.split)

lemma deriveKeys_no_panic: "\<not> panics (deriveKeys h proto secret)"
  unfolding deriveKeys_def Let_def by (intro no_panic) auto

lemma ParseAuthData_no_panic: "cbor_documented C \<Longrightarrow> \<not> panics (ParseAuthData C b)"
  using ParseAuthData_fault [of C b] by (cases "ParseAuthData C b") auto

lemma parse_attestation_no_panic: "cbor_documented C \<Longrightarrow> \<not> panics (parse_attestation C body)"
  unfolding parse_attestation_def Let_def by (intro no_panic ParseAuthData_no_panic) auto

lemma no_panic_optional [no_panic]:
  "(\<And>e p. bad e \<noteq> Panic p) \<Longrightarrow> \<not> panics (optional_member raw key dec bad a upd)"
  unfolding optional_member_def by (intro no_panic) auto

lemma parse_assertion_no_panic: "cbor_documented C \<Longrightarrow> \<not> panics (parse_assertion C body)"
  unfolding parse_assertion_def Let_def by (intro no_panic ParseAuthData_no_panic) auto

section \<open>The conduct of a round trip, and of the commands over it\<close>

lemma roundTrip_conduct:
  assumes "k_t k = Some T"
  shows "calm (roundTrip k cmd data)" and "deadline T \<Longrightarrow> ends (roundTrip k cmd data)"
    and "talks T (roundTrip k cmd data)"
proof -
  show "calm (roundTrip k cmd data)"
    unfolding calm_def
  proof (intro allI impI)
    fix w r w2
    assume "roundTrip k cmd data w = Some (r, w2)"
    then show "\<not> panics r" using roundTrip_no_panic [OF _ assms] by (cases r) auto
  qed
  show "talks T (roundTrip k cmd data)"
    unfolding talks_def using roundTrip_trace [OF _ assms] by blast
  assume "deadline T"
  then have "\<exists>y. roundTrip k cmd data w = Some y" for w
    unfolding deadline_def by (intro roundTrip_returns_aux [OF assms]) blast
  then show "ends (roundTrip k cmd data)" unfolding ends_def by fastforce
qed

lemma Key_Name_conduct:
  assumes "k_t k = Some T"
  shows "calm (Key_Name k)" and "ends (Key_Name k)" and "talks T (Key_Name k)"
  using assms by (auto simp: calm_def ends_def talks_def Key_Name_def with_transport_def intro: trace.quiet)

lemma CBOR_conduct:
  assumes "k_t k = Some T"
  shows "calm (CBOR k cmd params)" and "deadline T \<Longrightarrow> ends (CBOR k cmd params)"
    and "talks T (CBOR k cmd params)"
proof -
  show "calm (CBOR k cmd params)"
    unfolding CBOR_def
    by (intro conduct roundTrip_conduct [OF assms] Key_Name_conduct [OF assms]; simp add: Suc_leI)
  show "deadline T \<Longrightarrow> ends (CBOR k cmd params)"
    unfolding CBOR_def by (intro conduct roundTrip_conduct [OF assms] Key_Name_conduct [OF assms])
  show "talks T (CBOR k cmd params)"
    unfolding CBOR_def by (intro conduct roundTrip_conduct [OF assms] Key_Name_conduct [OF assms])
qed

lemma ctap2Ready_conduct:
  assumes "k_t k = Some T"
  shows "calm (ctap2Ready k)" and "ends (ctap2Ready k)" and "talks T (ctap2Ready k)"
  unfolding ctap2Ready_def by - (intro conduct Key_Name_conduct [OF assms]; simp)+

lemma cborCall_conduct:
  assumes "k_t k = Some T"
  shows "calm (cborCall C k cmd m)" and "deadline T \<Longrightarrow> ends (cborCall C k cmd m)"
    and "talks T (cborCall C k cmd m)"
  unfolding cborCall_def by - (intro conduct CBOR_conduct [OF assms] no_panic; simp)+

lemma Ping_conduct:
  assumes "k_t k = Some T"
  shows "calm (Ping k data)" and "deadline T \<Longrightarrow> ends (Ping k data)" and "talks T (Ping k data)"
  unfolding Ping_def using roundTrip_conduct [OF assms] by simp_all

lemma Wink_conduct:
  assumes "k_t k = Some T"
  shows "calm (Wink k)" and "deadline T \<Longrightarrow> ends (Wink k)" and "talks T (Wink k)"
  unfolding Wink_def
  by - (intro conduct roundTrip_conduct [OF assms] Key_Name_conduct [OF assms]; simp)+

lemma GetInfo_conduct:
  assumes "k_t k = Some T"
  shows "calm (GetInfo C k)" and "deadline T \<Longrightarrow> ends (GetInfo C k)" and "talks T (GetInfo C k)"
  unfolding GetInfo_def by - (intro conduct CBOR_conduct [OF assms] Key_Name_conduct [OF assms] parseInfo_no_panic; simp)+

lemma PINRetries_conduct:
  assumes "k_t k = Some T"
  shows "calm (PINRetries C k)" and "deadline T \<Longrightarrow> ends (PINRetries C k)" and "talks T (PINRetries C k)"
  unfolding PINRetries_def
  by - (intro conduct cborCall_conduct [OF assms] ctap2Ready_conduct [OF assms] parse_retries_no_panic; simp)+

lemma KeyAgreement_conduct:
  assumes "k_t k = Some T"
  shows "calm (KeyAgreement C k proto)" and "deadline T \<Longrightarrow> ends (KeyAgreement C k proto)"
    and "talks T (KeyAgreement C k proto)"
  unfolding KeyAgreement_def
  by - (intro conduct cborCall_conduct [OF assms] ctap2Ready_conduct [OF assms] parse_agreement_no_panic; simp)+

lemma MakeCredential_conduct:
  assumes "k_t k = Some T"
  shows "cbor_documented C \<Longrightarrow> calm (MakeCredential C k r)" and "deadline T \<Longrightarrow> ends (MakeCredential C k r)"
    and "talks T (MakeCredential C k r)"
  unfolding MakeCredential_def
  by - (intro conduct cborCall_conduct [OF assms] ctap2Ready_conduct [OF assms] parse_attestation_no_panic; simp)+

lemma GetAssertion_conduct:
  assumes "k_t k = Some T"
  shows "cbor_documented C \<Longrightarrow> calm (GetAssertion C k q)" and "deadline T \<Longrightarrow> ends (GetAssertion C k q)"
    and "talks T (GetAssertion C k q)"
  unfolding GetAssertion_def
  by - (intro conduct cborCall_conduct [OF assms] ctap2Ready_conduct [OF assms] parse_assertion_no_panic; simp)+

lemma agree_conduct:
  fixes S :: "'w seams"
  shows "calm (agree S proto pub)" and "ends (agree S proto pub)"
proof -
  define op :: "ecdh_private \<Rightarrow> ('w, (int \<Rightarrow> gval option) \<times> pinKeys) io" where "op priv = bindIO (liftIO (ecdhToCOSE (priv_PublicKey priv))) (\<lambda>own.
         bindIO (liftIO (wrapExt (\<lambda>e. Pin (WillNotAgree e)) (priv_ECDH priv pub))) (\<lambda>secret.
         bindIO (liftIO (deriveKeys (sm_hkdfKey S) proto secret)) (\<lambda>keys.
         retIO (own, keys))))" for priv
  have op: "calm (op priv)" "ends (op priv)" for priv
    unfolding op_def
    by - (intro conduct no_panic ecdhToCOSE_no_panic deriveKeys_no_panic; simp)+
  have "agree S proto pub w = (case sm_newECDHKey S w of
      (Inl e, w1) \<Rightarrow> Some (Inl (Pin (NoKeyToAgreeWith e)), w1) | (Inr priv, w1) \<Rightarrow> op priv w1)" for w
    by (simp only: agree_def op_def)
  then show "calm (agree S proto pub)" "ends (agree S proto pub)"
    using op unfolding calm_def ends_def by (fastforce split: prod.splits sum.splits)+
qed

lemma pinHash_conduct: "calm (pinHash S keys pin)" "ends (pinHash S keys pin)"
  by (auto simp: calm_def ends_def pinHash_def encrypt_eq Let_def split: if_splits prod.splits sum.splits)

lemma PINToken_conduct:
  assumes "k_t k = Some T"
  shows "calm (PINToken C S k pin proto perms rpID)" and "deadline T \<Longrightarrow> ends (PINToken C S k pin proto perms rpID)"
  unfolding PINToken_def split_def
  by - (intro conduct cborCall_conduct [OF assms] ctap2Ready_conduct [OF assms] KeyAgreement_conduct [OF assms] agree_conduct pinHash_conduct
      parse_token_no_panic; simp)+

end
