(* ===== verification/Peer.thy ===== *)
theory Peer
  imports Ctap2
begin

text \<open>
  The other end of the wire: the key the tests play against.  \<open>fakeTransport\<close> and \<open>answering\<close> of
  \<open>key_test.go\<close> and \<open>ctap2Key\<close> of \<open>ctap2_test.go\<close> reassemble what they are sent and answer it, with
  an authenticator of the test's behind them.  The lemmas show that the wire is transparent: a
  CTAP2 command over this key is one call of its authenticator.
\<close>

section \<open>The fake key\<close>

text \<open>
  \<open>f_sendErr\<close>, \<open>f_recvErr\<close> and \<open>f_blockAll\<close> are the failures a test injects.  \<open>f_ctx\<close> is what the test's
  context ends with; \<open>None\<close> is \<open>context.Background\<close>, which never ends.
\<close>

record 'a fake =
  f_name :: string
  f_sendErr :: "ext_error option"
  f_recvErr :: "ext_error option"
  f_blockAll :: bool
  f_ctx :: "ext_error option"
  f_sent :: "bytes list"
  f_inbox :: "bytes list"
  f_closed :: nat
  f_bcast :: reassembler
  f_own :: reassembler
  f_rc :: reassembler
  f_auth :: 'a

definition newFake :: "u32 \<Rightarrow> 'a \<Rightarrow> 'a fake" where
  "newFake ch a =
     \<lparr>f_name = ''Test Key'', f_sendErr = None, f_recvErr = None, f_blockAll = False,
      f_ctx = Some ''context deadline exceeded'', f_sent = [], f_inbox = [], f_closed = 0, f_bcast = NewReassembler BroadcastChannel,
      f_own = NewReassembler ch, f_rc = NewReassembler ch, f_auth = a\<rparr>"

text \<open>\<open>p, _ := Split(\<dots>)\<close>\<close>

definition cut :: "u32 \<Rightarrow> byte \<Rightarrow> bytes \<Rightarrow> bytes list" where
  "cut ch cmd data = (case Split ch cmd data of Inl _ \<Rightarrow> [] | Inr p \<Rightarrow> p)"

definition initReply :: "bytes \<Rightarrow> u32 \<Rightarrow> byte \<Rightarrow> bytes" where
  "initReply nonce channel caps =
     (let payload = go_copy (make_bytes 17) nonce;
          payload = copy_at 8 payload (PutUint32 channel);
          payload = payload[12 := 2, 13 := 5, 14 := 7, 15 := 4];
          payload = payload[16 := caps]
      in cut BroadcastChannel CmdInit payload ! 0)"

definition answering :: "bytes \<Rightarrow> u32 \<Rightarrow> byte \<Rightarrow> bytes \<Rightarrow> 'a fake \<Rightarrow> bytes list \<times> 'a fake" where
  "answering nonce channel caps sent f =
     (let (r, f) = (if get32 (take 4 sent) = BroadcastChannel
                    then let (r, rc) = Feed (f_bcast f) sent in (r, f\<lparr>f_bcast := rc\<rparr>)
                    else let (r, rc) = Feed (f_own f) sent in (r, f\<lparr>f_own := rc\<rparr>))
      in (case r of
            Inr (Some msg) \<Rightarrow>
              if m_cmd msg = CmdInit then [initReply nonce channel caps]
              else if m_cmd msg = CmdPing then cut channel CmdPing (m_data msg)
              else if m_cmd msg = CmdWink then cut channel CmdWink []
              else []
          | _ \<Rightarrow> [], f))"

text \<open>
  \<open>ctap2Key\<close>'s reply.  \<open>reply\<close> is the authenticator; \<open>None\<close> is a test that gives up, which
  leaves the program without an answer.  An empty message, which the code would index out of
  range, is never sent by \<open>CBOR\<close>.
\<close>

definition ctap2_answering ::
    "bytes \<Rightarrow> u32 \<Rightarrow> byte \<Rightarrow> (byte \<Rightarrow> bytes \<Rightarrow> 'a \<Rightarrow> bytes option \<times> 'a) \<Rightarrow> bytes \<Rightarrow> 'a fake \<Rightarrow>
      bytes list \<times> 'a fake" where
  "ctap2_answering nonce ch caps reply sent f =
     (if get32 (take 4 sent) = BroadcastChannel then answering nonce ch caps sent f
      else case Feed (f_rc f) sent of
        (Inr (Some msg), rc) \<Rightarrow>
          if m_cmd msg \<noteq> CmdCBOR then answering nonce ch caps sent (f\<lparr>f_rc := rc\<rparr>)
          else (case m_data msg of
              [] \<Rightarrow> ([], f\<lparr>f_rc := rc\<rparr>)
            | cmd # params \<Rightarrow>
                let (out, a) = reply cmd params (f_auth f)
                in (case out of None \<Rightarrow> [] | Some out \<Rightarrow> cut ch CmdCBOR out,
                    f\<lparr>f_rc := rc, f_auth := a\<rparr>))
      | (_, rc) \<Rightarrow> answering nonce ch caps sent (f\<lparr>f_rc := rc\<rparr>))"

text \<open>The transport; \<open>reply\<close> is the Go field of that name, which may be nil.\<close>

definition fakeTransport :: "(bytes \<Rightarrow> 'a fake \<Rightarrow> bytes list \<times> 'a fake) option \<Rightarrow> 'a fake transport" where
  "fakeTransport reply =
     \<lparr>tr_Send = (\<lambda>report f. case f_sendErr f of
         Some e \<Rightarrow> (Some e, f)
       | None \<Rightarrow> let f = f\<lparr>f_sent := f_sent f @ [report]\<rparr> in
           (case reply of
              None \<Rightarrow> (None, f)
            | Some reply \<Rightarrow> let (rs, f) = reply report f in (None, f\<lparr>f_inbox := f_inbox f @ rs\<rparr>))),
      tr_Receive = (\<lambda>f. case f_recvErr f of
         Some e \<Rightarrow> Some (Inl e, f)
       | None \<Rightarrow>
           if f_blockAll f \<or> length (f_inbox f) = 0 then map_option (\<lambda>e. (Inl e, f)) (f_ctx f)
           else Some (Inr (hd (f_inbox f)), f\<lparr>f_inbox := tl (f_inbox f)\<rparr>)),
      tr_Name = f_name,
      tr_Close = (\<lambda>f. (None, f\<lparr>f_closed := Suc (f_closed f)\<rparr>))\<rparr>"

definition fake_key_transport ::
    "bytes \<Rightarrow> u32 \<Rightarrow> byte \<Rightarrow> (byte \<Rightarrow> bytes \<Rightarrow> 'a \<Rightarrow> bytes option \<times> 'a) \<Rightarrow> 'a fake transport" where
  "fake_key_transport nonce ch caps reply = fakeTransport (Some (ctap2_answering nonce ch caps reply))"

section \<open>The key between two requests\<close>

definition sound :: "'a fake \<Rightarrow> bool" where
  "sound f \<longleftrightarrow> f_name f = ''Test Key'' \<and> f_sendErr f = None \<and> f_recvErr f = None \<and> \<not> f_blockAll f \<and>
     f_ctx f = Some ''context deadline exceeded''"

definition quiet_key :: "u32 \<Rightarrow> 'a fake \<Rightarrow> bool" where
  "quiet_key ch f \<longleftrightarrow> sound f \<and> f_inbox f = [] \<and> rc_channel (f_bcast f) = BroadcastChannel \<and>
     rc_channel (f_own f) = ch \<and> rc_channel (f_rc f) = ch"

lemma cut_eq: "cut ch cmd data = (if length data \<le> MaxMessage then packets ch cmd data else [])"
  by (simp add: cut_def Split_eq)

lemma packets_fed:
  assumes "rc_channel r = ch" and "length data \<le> MaxMessage" and "packets ch cmd data = ps @ [p]"
  obtains r1 r2 where "run_feed Feed r ps = (replicate (length ps) (Inr None), r1)"
    and "Feed r1 p = (Inr (Some (message ch cmd data)), r2)" and "rc_channel r1 = ch" and "rc_channel r2 = ch"
proof -
  let ?r1 = "snd (run_feed Feed r ps)" and ?r2 = "snd (Feed (snd (run_feed Feed r ps)) p)"
  obtain r' where run: "run_feed Feed r (ps @ [p]) =
      (replicate (length ps) (Inr None) @ [Inr (Some (message ch cmd data))], r')"
    using run_feed_packets [OF assms(1,2), of cmd] assms(3) by auto
  have len: "length (fst (run_feed Feed r ps)) = length ps" for r ps
    by (induction ps arbitrary: r) auto
  from run have "fst (run_feed Feed r ps) = replicate (length ps) (Inr None)"
    "fst (Feed ?r1 p) = Inr (Some (message ch cmd data))"
    by (simp_all add: run_feed_append len)
  moreover have own: "rc_channel ?r1 = ch"
    by (rule ctaphid.own_run) (rule assms(1))
  then have "rc_channel ?r2 = ch" by simp
  ultimately show ?thesis using own by (intro that [of ?r1 ?r2]) (auto simp: prod_eq_iff)
qed

lemma get32_packet: "p \<in> set (packets ch cmd data) \<Longrightarrow> get32 (take 4 p) = ch"
  by (simp add: packets_channel get32_Put)

lemma fake_fields [simp]:
  "tr_Receive (fakeTransport reply) f = (case f_recvErr f of
       Some e \<Rightarrow> Some (Inl e, f)
     | None \<Rightarrow>
         if f_blockAll f \<or> f_inbox f = [] then map_option (\<lambda>e. (Inl e, f)) (f_ctx f)
         else Some (Inr (hd (f_inbox f)), f\<lparr>f_inbox := tl (f_inbox f)\<rparr>))"
  "tr_Name (fakeTransport reply) f = f_name f"
  "tr_Close (fakeTransport reply) f = (None, f\<lparr>f_closed := Suc (f_closed f)\<rparr>)"
  by (simp_all add: fakeTransport_def split: option.split)

lemma fake_key_fields [simp]:
  "tr_Receive (fake_key_transport nonce ch caps reply) = tr_Receive (fakeTransport (Some (ctap2_answering nonce ch caps reply)))"
  "tr_Name (fake_key_transport nonce ch caps reply) f = f_name f"
  "tr_Close (fake_key_transport nonce ch caps reply) f = (None, f\<lparr>f_closed := Suc (f_closed f)\<rparr>)"
  by (simp_all add: fake_key_transport_def)

lemma sound_updates [simp]:
  "sound (f\<lparr>f_sent := x\<rparr>) = sound f" "sound (f\<lparr>f_inbox := x\<rparr>) = sound f" "sound (f\<lparr>f_bcast := r\<rparr>) = sound f"
  "sound (f\<lparr>f_own := r\<rparr>) = sound f" "sound (f\<lparr>f_rc := r\<rparr>) = sound f" "sound (f\<lparr>f_auth := a\<rparr>) = sound f"
  by (simp_all add: sound_def)

lemma fake_send:
  assumes "sound f"
    and "ctap2_answering nonce ch caps reply p (f\<lparr>f_sent := f_sent f @ [p]\<rparr>) = (rs, f1)"
  shows "tr_Send (fake_key_transport nonce ch caps reply) p f = (None, f1\<lparr>f_inbox := f_inbox f1 @ rs\<rparr>)"
  using assms by (simp add: fake_key_transport_def fakeTransport_def sound_def)

lemma fake_receives:
  "sound f \<Longrightarrow> f_inbox f = rs @ rest \<Longrightarrow>
     trace (fake_key_transport nonce ch caps reply) f (received_all rs) (f\<lparr>f_inbox := rest\<rparr>)"
proof (induction rs arbitrary: f)
  case (Cons r rs)
  then show ?case using Cons.IH [of "f\<lparr>f_inbox := rs @ rest\<rparr>"] by (simp add: sound_def)
qed simp

text \<open>Reports of an unfinished message are taken by both reassemblers, and not answered.\<close>

lemma fake_sends_unfinished:
  assumes "sound f" and "ch \<noteq> BroadcastChannel" and "\<forall>p \<in> set ps. get32 (take 4 p) = ch"
    and "run_feed Feed (f_rc f) ps = (replicate (length ps) (Inr None), rc)"
    and "run_feed Feed (f_own f) ps = (replicate (length ps) (Inr None), own)"
  shows "trace (fake_key_transport nonce ch caps reply) f (sent_all ps)
    (f\<lparr>f_sent := f_sent f @ ps, f_own := own, f_rc := rc\<rparr>)"
  using assms(1,3-5)
proof (induction ps arbitrary: f)
  case (Cons p ps)
  obtain rc1 own1 where fed: "Feed (f_rc f) p = (Inr None, rc1)" "Feed (f_own f) p = (Inr None, own1)"
    using Cons.prems(3,4) by (cases "Feed (f_rc f) p"; cases "Feed (f_own f) p") auto
  let ?f = "f\<lparr>f_sent := f_sent f @ [p], f_rc := rc1, f_own := own1\<rparr>"
  have "ctap2_answering nonce ch caps reply p (f\<lparr>f_sent := f_sent f @ [p]\<rparr>) = ([], ?f)"
    using assms(2) Cons.prems(2) fed by (simp add: ctap2_answering_def answering_def)
  from fake_send [OF Cons.prems(1) this] have "tr_Send (fake_key_transport nonce ch caps reply) p f = (None, ?f)" by simp
  moreover have "trace (fake_key_transport nonce ch caps reply) ?f (sent_all ps)
      (?f\<lparr>f_sent := f_sent ?f @ ps, f_own := own, f_rc := rc\<rparr>)"
    using Cons.prems fed by (intro Cons.IH) (auto simp: prod_eq_iff)
  ultimately show ?case by simp
qed simp

text \<open>What the key says to a whole message on its channel, and what becomes of the authenticator.\<close>

definition respond ::
    "bytes \<Rightarrow> u32 \<Rightarrow> byte \<Rightarrow> (byte \<Rightarrow> bytes \<Rightarrow> 'a \<Rightarrow> bytes option \<times> 'a) \<Rightarrow> byte \<Rightarrow> bytes \<Rightarrow> 'a \<Rightarrow> bytes list \<times> 'a" where
  "respond nonce ch caps reply cmd data a =
     (if cmd = CmdCBOR then (case data of
          [] \<Rightarrow> ([], a)
        | c # params \<Rightarrow> let (out, a) = reply c params a
            in (case out of None \<Rightarrow> [] | Some out \<Rightarrow> cut ch CmdCBOR out, a))
      else (if cmd = CmdInit then [initReply nonce ch caps]
            else if cmd = CmdPing then cut ch CmdPing data
            else if cmd = CmdWink then cut ch CmdWink []
            else [], a))"

lemma fake_sends:
  assumes "quiet_key ch f" and "ch \<noteq> BroadcastChannel" and "cmd AND NOT 0x80 = cmd"
    and "length data \<le> MaxMessage"
    and "respond nonce ch caps reply cmd data (f_auth f) = (rs, a)"
  obtains rc own where "rc_channel own = ch" and "rc_channel rc = ch"
    and "trace (fake_key_transport nonce ch caps reply) f (sent_all (packets ch cmd data))
      (f\<lparr>f_sent := f_sent f @ packets ch cmd data, f_inbox := rs, f_own := own, f_rc := rc, f_auth := a\<rparr>)"
proof -
  obtain ps p where ps: "packets ch cmd data = ps @ [p]"
    by (metis packets_def list.distinct(1) rev_exhaust)
  from assms(1) have quiet: "f_inbox f = []" "rc_channel (f_own f) = ch" "rc_channel (f_rc f) = ch" and ok: "sound f"
    by (simp_all add: quiet_key_def)
  have on: "\<forall>q \<in> set (ps @ [p]). get32 (take 4 q) = ch"
    unfolding ps [symmetric] using get32_packet [of _ ch cmd data] by blast
  obtain rc1 rc2 where rc: "run_feed Feed (f_rc f) ps = (replicate (length ps) (Inr None), rc1)"
    "Feed rc1 p = (Inr (Some (message ch cmd data)), rc2)" "rc_channel rc1 = ch" "rc_channel rc2 = ch"
    using packets_fed [OF quiet(3) assms(4) ps] by blast
  obtain own1 own2 where own: "run_feed Feed (f_own f) ps = (replicate (length ps) (Inr None), own1)"
    "Feed own1 p = (Inr (Some (message ch cmd data)), own2)" "rc_channel own1 = ch" "rc_channel own2 = ch"
    using packets_fed [OF quiet(2) assms(4) ps] by blast
  let ?f = "f\<lparr>f_sent := f_sent f @ ps, f_own := own1, f_rc := rc1\<rparr>"
  have sent: "trace (fake_key_transport nonce ch caps reply) f (sent_all ps) ?f"
    using on by (intro fake_sends_unfinished [OF ok assms(2) _ rc(1) own(1)]) simp
  let ?own = "if cmd = CmdCBOR then own1 else own2"
  have still: "sound ?f" using ok by simp
  have chan: "get32 (take 4 p) = ch" using on by simp
  have "ctap2_answering nonce ch caps reply p (?f\<lparr>f_sent := f_sent ?f @ [p]\<rparr>) =
      (rs, f\<lparr>f_sent := f_sent f @ ps @ [p], f_own := ?own, f_rc := rc2, f_auth := a\<rparr>)"
  proof (cases "cmd = CmdCBOR")
    case True
    with assms(2,3,5) chan rc(2) show ?thesis
      by (cases data; simp add: ctap2_answering_def respond_def message_def split_beta)
  next
    case False
    with assms(2,3,5) chan rc(2) own(2) show ?thesis
      by (auto simp: ctap2_answering_def answering_def respond_def message_def)
  qed
  from fake_send [OF still this] sent quiet(1)
  have "trace (fake_key_transport nonce ch caps reply) f (sent_all (packets ch cmd data))
      (f\<lparr>f_sent := f_sent f @ packets ch cmd data, f_inbox := rs, f_own := ?own, f_rc := rc2, f_auth := a\<rparr>)"
    by (auto simp: ps trace_append)
  then show ?thesis using rc own by (intro that [of ?own rc2]) auto
qed

section \<open>Round trips with it\<close>

definition fake_key :: "'a fake transport \<Rightarrow> u32 \<Rightarrow> Version \<Rightarrow> byte \<Rightarrow> 'a fake key" where
  "fake_key T ch v caps = \<lparr>k_t = Some T, k_channel = ch, k_version = v, k_caps = caps\<rparr>"

text \<open>The state after an exchange of a message of the program's.\<close>

definition exchanged :: "u32 \<Rightarrow> byte \<Rightarrow> bytes \<Rightarrow> 'a \<Rightarrow> 'a fake \<Rightarrow> 'a fake \<Rightarrow> bool" where
  "exchanged ch cmd data a f f' \<longleftrightarrow> quiet_key ch f' \<and> f_auth f' = a \<and>
     f_sent f' = f_sent f @ packets ch cmd data \<and> f_closed f' = f_closed f"

lemma fake_roundTrip:
  assumes "k_t k = Some (fake_key_transport nonce ch caps reply)" and "k_channel k = ch"
    and "quiet_key ch f" and "ch \<noteq> BroadcastChannel" and "plain_command cmd"
    and "length data \<le> MaxMessage" and "length out \<le> MaxMessage"
    and "respond nonce ch caps reply cmd data (f_auth f) = (packets ch cmd out, a)"
  obtains f' where "roundTrip k cmd data f = Some (Inr out, f')" and "exchanged ch cmd data a f f'"
proof -
  have plain: "cmd AND NOT 0x80 = cmd" using assms(5) by (simp add: plain_command_def)
  obtain rc own where own: "rc_channel own = ch" "rc_channel rc = ch"
    and sent: "trace (fake_key_transport nonce ch caps reply) f (sent_all (packets ch cmd data))
      (f\<lparr>f_sent := f_sent f @ packets ch cmd data, f_inbox := packets ch cmd out, f_own := own,
         f_rc := rc, f_auth := a\<rparr>)" (is "trace _ _ _ ?f1")
    by (rule fake_sends [OF assms(3,4) plain assms(6,8)])
  have "trace (fake_key_transport nonce ch caps reply) ?f1 (received_all (packets ch cmd out)) (?f1\<lparr>f_inbox := []\<rparr>)"
    using assms(3) by (intro fake_receives) (simp_all add: quiet_key_def)
  with sent have "trace (fake_key_transport nonce ch caps reply) f
      (sent_all (packets ch cmd data) @ received_all (packets ch cmd out)) (?f1\<lparr>f_inbox := []\<rparr>)"
    unfolding trace_append by blast
  from roundTrip_replies [OF assms(1,2,6,5,7) this]
  show ?thesis using own assms(3) by (intro that) (auto simp: exchanged_def quiet_key_def)
qed

lemma fake_roundTrip_silent:
  assumes "k_t k = Some (fake_key_transport nonce ch caps reply)" and "k_channel k = ch"
    and "quiet_key ch f" and "ch \<noteq> BroadcastChannel" and "plain_command cmd"
    and "length data \<le> MaxMessage"
    and "respond nonce ch caps reply cmd data (f_auth f) = ([], a)"
  obtains f' where "roundTrip k cmd data f =
      Some (Inl (Key (DidNotAnswer ''Test Key'' ''context deadline exceeded'')), f')"
    and "exchanged ch cmd data a f f'"
proof -
  have plain: "cmd AND NOT 0x80 = cmd" using assms(5) by (simp add: plain_command_def)
  obtain rc own where own: "rc_channel own = ch" "rc_channel rc = ch"
    and sent: "trace (fake_key_transport nonce ch caps reply) f (sent_all (packets ch cmd data))
      (f\<lparr>f_sent := f_sent f @ packets ch cmd data, f_inbox := [], f_own := own,
         f_rc := rc, f_auth := a\<rparr>)" (is "trace _ _ _ ?f1")
    by (rule fake_sends [OF assms(3,4) plain assms(6,7)])
  have "roundTrip k cmd data f = Some (Inl (Key (DidNotAnswer ''Test Key'' ''context deadline exceeded'')), ?f1)"
    using roundTrip_sent [OF assms(1,6), of f cmd ?f1] sent assms(2,3)
    by (simp add: receive_loop.simps quiet_key_def sound_def)
  then show ?thesis using own assms(3) by (intro that) (auto simp: exchanged_def quiet_key_def)
qed


section \<open>A CTAP2 command as one call of the authenticator\<close>

definition call ::
    "(byte \<Rightarrow> bytes \<Rightarrow> 'a \<Rightarrow> bytes option \<times> 'a) \<Rightarrow> byte \<Rightarrow> bytes \<Rightarrow> 'a \<Rightarrow> bytes outcome \<times> 'a" where
  "call reply cmd params a =
     (if MaxMessage \<le> length params then (Inl (Wire ErrTooLong), a)
      else let (out, a) = reply cmd params a
        in (case out of
              None \<Rightarrow> Inl (Key (DidNotAnswer ''Test Key'' ''context deadline exceeded''))
            | Some [] \<Rightarrow> Inl (Ctap2 (NothingAtAll ''Test Key''))
            | Some (s # body) \<Rightarrow>
                if MaxMessage \<le> length body
                then Inl (Key (DidNotAnswer ''Test Key'' ''context deadline exceeded''))
                else if s = StatusOK then Inr body
                else Inl (Ctap2 (StatusRefusal ''Test Key'' s)), a))"

definition plugged_in ::
    "bytes \<Rightarrow> u32 \<Rightarrow> byte \<Rightarrow> (byte \<Rightarrow> bytes \<Rightarrow> 'a \<Rightarrow> bytes option \<times> 'a) \<Rightarrow> 'a fake key \<Rightarrow> 'a fake \<Rightarrow> bool" where
  "plugged_in nonce ch caps reply k f \<longleftrightarrow> k_t k = Some (fake_key_transport nonce ch caps reply) \<and>
     k_channel k = ch \<and> ch \<noteq> BroadcastChannel \<and> k_caps k = caps \<and> quiet_key ch f"

lemma plugged_in_after: "plugged_in nonce ch caps reply k f \<Longrightarrow> exchanged ch cmd data a f f' \<Longrightarrow>
    plugged_in nonce ch caps reply k f'"
  by (simp add: plugged_in_def exchanged_def)

lemma CBOR_calls:
  assumes "plugged_in nonce ch caps reply k f"
  obtains f' where "CBOR k cmd params f = Some (fst (call reply cmd params (f_auth f)), f')"
    and "plugged_in nonce ch caps reply k f'" and "f_auth f' = snd (call reply cmd params (f_auth f))"
    and "f_closed f' = f_closed f"
    and "f_sent f' = f_sent f @ (if MaxMessage \<le> length params then [] else packets ch CmdCBOR (cmd # params))"
proof -
  have k: "k_t k = Some (fake_key_transport nonce ch caps reply)" "k_channel k = ch" "ch \<noteq> BroadcastChannel"
    and quiet: "quiet_key ch f"
    using assms by (auto simp: plugged_in_def)
  show ?thesis
  proof (cases "MaxMessage \<le> length params")
    case True
    then have "roundTrip k CmdCBOR (cmd # params) f = Some (Inl (Wire ErrTooLong), f)"
      by (intro roundTrip_too_long) simp
    with True assms show ?thesis by (intro that [of f]) (simp_all add: CBOR_eq [OF k(1)] call_def)
  next
    case False
    then have len: "length (cmd # params) \<le> MaxMessage" by simp
    obtain out a where reply: "reply cmd params (f_auth f) = (out, a)" by fastforce
    have plain: "plain_command CmdCBOR" by simp
    consider (silent) "out = None \<or> (\<exists>o'. out = Some o' \<and> MaxMessage < length o')"
      | (answer) o' where "out = Some o'" "length o' \<le> MaxMessage"
      by (cases out) (auto simp: not_le [symmetric])
    then show ?thesis
    proof cases
      case silent
      with reply have "respond nonce ch caps reply CmdCBOR (cmd # params) (f_auth f) = ([], a)"
        by (auto simp: respond_def cut_eq)
      then obtain f' where rt: "roundTrip k CmdCBOR (cmd # params) f =
          Some (Inl (Key (DidNotAnswer ''Test Key'' ''context deadline exceeded'')), f')"
        and ex: "exchanged ch CmdCBOR (cmd # params) a f f'"
        by (rule fake_roundTrip_silent [OF k(1,2) quiet k(3) plain len])
      from rt have "CBOR k cmd params f = Some (fst (call reply cmd params (f_auth f)), f')"
        using False silent reply by (auto simp: CBOR_eq [OF k(1)] call_def split: list.split)
      moreover have "f_auth f' = snd (call reply cmd params (f_auth f))"
        using ex False reply by (simp add: exchanged_def call_def)
      ultimately show ?thesis
        using ex False plugged_in_after [OF assms ex] by (intro that [of f']) (auto simp: exchanged_def)
    next
      case answer
      with reply have "respond nonce ch caps reply CmdCBOR (cmd # params) (f_auth f) = (packets ch CmdCBOR o', a)"
        by (auto simp: respond_def cut_eq)
      with answer(2) obtain f' where rt: "roundTrip k CmdCBOR (cmd # params) f = Some (Inr o', f')"
        and ex: "exchanged ch CmdCBOR (cmd # params) a f f'"
        by (rule_tac fake_roundTrip [OF k(1,2) quiet k(3) plain len])
      have "f_name f' = ''Test Key''" using ex by (simp add: exchanged_def quiet_key_def sound_def)
      with rt have "CBOR k cmd params f = Some (fst (call reply cmd params (f_auth f)), f')"
        using False answer reply by (auto simp: CBOR_eq [OF k(1)] call_def StatusOK_def split: list.split)
      moreover have "f_auth f' = snd (call reply cmd params (f_auth f))"
        using ex False reply by (simp add: exchanged_def call_def)
      ultimately show ?thesis
        using ex False plugged_in_after [OF assms ex] by (intro that [of f']) (auto simp: exchanged_def)
    qed
  qed
qed

section \<open>A remote machine\<close>

text \<open>
  What a client of the wire relies on: an operation on the world that is, in every good state of it,
  one call of a machine whose state the world holds, and leaves the world good.  Then a sequence of
  operations is a run of the machine.
\<close>

fun run_calls :: "(byte \<Rightarrow> bytes \<Rightarrow> 'a \<Rightarrow> 'r \<times> 'a) \<Rightarrow> (byte \<times> bytes) list \<Rightarrow> 'a \<Rightarrow> 'r list \<times> 'a" where
  "run_calls machine [] a = ([], a)"
| "run_calls machine ((cmd, params) # cs) a =
     (let (r, a1) = machine cmd params a; (rs, a2) = run_calls machine cs a1 in (r # rs, a2))"

fun run_commands ::
    "(byte \<Rightarrow> bytes \<Rightarrow> ('w, 'b) io) \<Rightarrow> (byte \<times> bytes) list \<Rightarrow> 'w \<Rightarrow> ('b outcome list \<times> 'w) option" where
  "run_commands op [] w = Some ([], w)"
| "run_commands op ((cmd, params) # cs) w = (case op cmd params w of
     None \<Rightarrow> None
   | Some (r, w1) \<Rightarrow> map_option (\<lambda>(rs, w2). (r # rs, w2)) (run_commands op cs w1))"

locale remote =
  fixes op :: "byte \<Rightarrow> bytes \<Rightarrow> ('w, 'b) io"
    and machine :: "byte \<Rightarrow> bytes \<Rightarrow> 'a \<Rightarrow> 'b outcome \<times> 'a"
    and good :: "'w \<Rightarrow> bool"
    and held :: "'w \<Rightarrow> 'a"
  assumes one_call: "good w \<Longrightarrow> \<exists>w1. op cmd params w = Some (fst (machine cmd params (held w)), w1) \<and>
    good w1 \<and> held w1 = snd (machine cmd params (held w))"
begin

lemma runs:
  "good w \<Longrightarrow> \<exists>w1. run_commands op cs w = Some (fst (run_calls machine cs (held w)), w1) \<and>
     good w1 \<and> held w1 = snd (run_calls machine cs (held w))"
proof (induction cs arbitrary: w)
  case (Cons c cs)
  obtain cmd params where c: "c = (cmd, params)" by fastforce
  obtain w1 where w1: "op cmd params w = Some (fst (machine cmd params (held w)), w1)" "good w1"
    "held w1 = snd (machine cmd params (held w))"
    using one_call [OF Cons.prems] by blast
  from Cons.IH [OF w1(2)] obtain w2 where "run_commands op cs w1 = Some (fst (run_calls machine cs (held w1)), w2)"
    "good w2" "held w2 = snd (run_calls machine cs (held w1))" by blast
  with w1 c show ?case by (intro exI [of _ w2]) (simp add: split_beta Let_def)
qed simp

text \<open>What one client has done to the machine is where the next begins.\<close>

lemma runs_append:
  "good w \<Longrightarrow> \<exists>w1 w2. run_commands op cs w = Some (fst (run_calls machine cs (held w)), w1) \<and>
     run_commands op ds w1 = Some (fst (run_calls machine ds (snd (run_calls machine cs (held w)))), w2) \<and> good w2"
  using runs [of w cs] runs [of _ ds] by metis

end

interpretation wire: remote "CBOR k" "call reply" "plugged_in nonce ch caps reply k" f_auth
  for k and reply :: "byte \<Rightarrow> bytes \<Rightarrow> 'a \<Rightarrow> bytes option \<times> 'a" and nonce ch caps
proof
  fix f :: "'a fake" and cmd params
  assume "plugged_in nonce ch caps reply k f"
  then show "\<exists>f1. CBOR k cmd params f = Some (fst (call reply cmd params (f_auth f)), f1) \<and>
      plugged_in nonce ch caps reply k f1 \<and> f_auth f1 = snd (call reply cmd params (f_auth f))"
    by (rule CBOR_calls [where cmd = cmd and params = params]) blast
qed

section \<open>The handshake with it\<close>

lemma initReply_eq:
  assumes "length nonce = 8"
  shows "packets BroadcastChannel CmdInit (nonce @ PutUint32 ch @ [2, 5, 7, 4, caps]) = [initReply nonce ch caps]"
proof -
  obtain n0 n1 n2 n3 n4 n5 n6 n7 where n: "nonce = [n0, n1, n2, n3, n4, n5, n6, n7]"
    using assms by (auto simp: numeral_eq_Suc length_Suc_conv)
  obtain c0 c1 c2 c3 where c: "PutUint32 ch = [c0, c1, c2, c3]"
    using length_4_cases [of "PutUint32 ch"] by auto
  show ?thesis
    by (simp add: initReply_def n c Let_def cut_eq go_copy_def copy_at_def wire_simps packets_def numeral_eq_Suc)
qed


lemma broadcast_exchange:
  assumes "k_t k = Some (fake_key_transport nonce ch caps reply)" and "k_channel k = BroadcastChannel"
    and "quiet_key ch f" and "length nonce = 8" and "length data \<le> 57"
  obtains f' where "roundTrip k CmdInit data f = Some (Inr (nonce @ PutUint32 ch @ [2, 5, 7, 4, caps]), f')"
    and "quiet_key ch f'" and "f_auth f' = f_auth f" and "f_closed f' = f_closed f"
    and "f_sent f' = f_sent f @ packets BroadcastChannel CmdInit data"
proof -
  let ?T = "fake_key_transport nonce ch caps reply"
  let ?p = "init_packet BroadcastChannel CmdInit data"
  let ?answer = "nonce @ PutUint32 ch @ [2, 5, 7, 4, caps]"
  have one: "packets BroadcastChannel CmdInit data = [] @ [?p]"
    using assms(5) by (simp add: packets_def)
  have len: "length data \<le> MaxMessage" using assms(5) by (simp add: wire_simps)
  from assms(3) have "rc_channel (f_bcast f) = BroadcastChannel" and empty: "f_inbox f = []" and ok: "sound f"
    by (simp_all add: quiet_key_def)
  then obtain rc where rc: "Feed (f_bcast f) ?p = (Inr (Some (message BroadcastChannel CmdInit data)), rc)"
    "rc_channel rc = BroadcastChannel"
    using packets_fed [OF _ len one] by (metis run_feed.simps(1) prod.inject)
  have "get32 (take 4 ?p) = BroadcastChannel"
    using get32_packet [of ?p BroadcastChannel CmdInit data] one by simp
  then have "ctap2_answering nonce ch caps reply ?p (f\<lparr>f_sent := f_sent f @ [?p]\<rparr>) =
      ([initReply nonce ch caps], f\<lparr>f_sent := f_sent f @ [?p], f_bcast := rc\<rparr>)"
    using rc by (simp add: ctap2_answering_def answering_def message_def cmd_defs)
  from fake_send [OF _ this, simplified, OF ok] empty
  have sent: "trace ?T f (sent_all (packets BroadcastChannel CmdInit data))
      (f\<lparr>f_sent := f_sent f @ [?p], f_bcast := rc, f_inbox := [initReply nonce ch caps]\<rparr>)" (is "trace _ _ _ ?f1")
    by (simp add: one)
  have "trace ?T ?f1 (received_all [initReply nonce ch caps]) (?f1\<lparr>f_inbox := []\<rparr>)"
    using ok by (intro fake_receives) simp_all
  with sent have "trace ?T f (sent_all (packets BroadcastChannel CmdInit data) @
      received_all (packets BroadcastChannel CmdInit ?answer)) (?f1\<lparr>f_inbox := []\<rparr>)"
    unfolding trace_append initReply_eq [OF assms(4)] by blast
  from roundTrip_replies [OF assms(1,2) len plain_commands(2) _ this]
  show ?thesis using assms(3,4) rc one
    by (intro that [of "?f1\<lparr>f_inbox := []\<rparr>"]) (auto simp: quiet_key_def wire_simps)
qed

lemma Open_fake:
  assumes "randomNonce 8 f = (Inr nonce, f)" and "length nonce = 8" and "ch \<noteq> BroadcastChannel"
    and "quiet_key ch f"
  obtains k f' where "Open randomNonce (fake_key_transport nonce ch caps reply) f = Some (Inr k, f')"
    and "plugged_in nonce ch caps reply k f'"
    and "k_version k = \<lparr>v_CTAPHID = 2, v_Major = 5, v_Minor = 7, v_Build = 4\<rparr>"
    and "f_auth f' = f_auth f" and "f_closed f' = f_closed f"
proof -
  let ?T = "fake_key_transport nonce ch caps reply"
  let ?k = "\<lparr>k_t = Some ?T, k_channel = BroadcastChannel, k_version = zero_version, k_caps = 0\<rparr>"
  let ?answer = "nonce @ PutUint32 ch @ [2, 5, 7, 4, caps]"
  obtain f' where rt: "roundTrip ?k CmdInit nonce f = Some (Inr ?answer, f')"
    and f': "quiet_key ch f'" "f_auth f' = f_auth f" "f_closed f' = f_closed f"
    using broadcast_exchange [of ?k nonce ch caps reply f nonce] assms by auto
  have "ParseInit ?answer = Inr \<lparr>ir_Nonce = nonce, ir_Channel = ch,
      ir_Version = \<lparr>v_CTAPHID = 2, v_Major = 5, v_Minor = 7, v_Build = 4\<rparr>, ir_Caps = caps\<rparr>"
    using ParseInit_encode [of "\<lparr>ir_Nonce = nonce, ir_Channel = ch,
      ir_Version = \<lparr>v_CTAPHID = 2, v_Major = 5, v_Minor = 7, v_Build = 4\<rparr>, ir_Caps = caps\<rparr>" "[]"] assms(2)
    by (simp add: encode_init_def)
  with rt assms(1,2) have "Open randomNonce ?T f = Some (Inr (?k\<lparr>k_channel := ch,
      k_version := \<lparr>v_CTAPHID = 2, v_Major = 5, v_Minor = 7, v_Build = 4\<rparr>, k_caps := caps\<rparr>), f')"
    by (simp add: Open_def)
  then show ?thesis using f' assms(3) by (intro that [of _ f']) (auto simp: plugged_in_def)
qed

lemma quiet_newFake: "quiet_key ch (newFake ch a)"
  by (simp add: quiet_key_def newFake_def NewReassembler_def sound_def)

section \<open>A key with faults\<close>

text \<open>What a test sets up once: answering a report changes none of it.\<close>

definition faults :: "'a fake \<Rightarrow> string \<times> ext_error option \<times> ext_error option \<times> bool \<times> ext_error option" where
  "faults f = (f_name f, f_sendErr f, f_recvErr f, f_blockAll f, f_ctx f)"

lemma faults_updates [simp]:
  "faults (f\<lparr>f_sent := x\<rparr>) = faults f" "faults (f\<lparr>f_inbox := x\<rparr>) = faults f" "faults (f\<lparr>f_bcast := r\<rparr>) = faults f"
  "faults (f\<lparr>f_own := r\<rparr>) = faults f" "faults (f\<lparr>f_rc := r\<rparr>) = faults f" "faults (f\<lparr>f_auth := a\<rparr>) = faults f"
  by (simp_all add: faults_def)

lemma answering_keeps:
  "faults (snd (answering nonce ch caps p f)) = faults f" "f_sent (snd (answering nonce ch caps p f)) = f_sent f"
  by (simp_all add: answering_def split_beta Let_def)

lemma ctap2_answering_keeps:
  "faults (snd (ctap2_answering nonce ch caps reply p f)) = faults f"
  "f_sent (snd (ctap2_answering nonce ch caps reply p f)) = f_sent f"
  by (simp_all add: ctap2_answering_def answering_keeps split_beta Let_def split: sum.split option.split list.split)

lemma faulty_sends:
  "f_sendErr f = None \<Longrightarrow> \<exists>f1. trace (fake_key_transport nonce ch caps reply) f (sent_all ps) f1 \<and>
     faults f1 = faults f \<and> f_sent f1 = f_sent f @ ps"
proof (induction ps arbitrary: f)
  case (Cons p ps)
  let ?T = "fake_key_transport nonce ch caps reply" and ?f = "f\<lparr>f_sent := f_sent f @ [p]\<rparr>"
  obtain rs f1 where reply: "ctap2_answering nonce ch caps reply p ?f = (rs, f1)" by fastforce
  let ?f1 = "f1\<lparr>f_inbox := f_inbox f1 @ rs\<rparr>"
  have send: "tr_Send ?T p f = (None, ?f1)"
    using Cons.prems reply by (simp add: fake_key_transport_def fakeTransport_def)
  have kept: "faults ?f1 = faults f" "f_sent ?f1 = f_sent f @ [p]"
    using ctap2_answering_keeps [of nonce ch caps reply p ?f] reply by simp_all
  with Cons.prems have "f_sendErr ?f1 = None" by (simp add: faults_def)
  from Cons.IH [OF this] obtain f2 where "trace ?T ?f1 (sent_all ps) f2" "faults f2 = faults ?f1"
    "f_sent f2 = f_sent ?f1 @ ps" by blast
  with send kept show ?case by (intro exI [of _ f2]) simp
qed simp

lemma faulty_receive:
  assumes "f_recvErr f \<noteq> None \<or> f_blockAll f"
  shows "receive_loop (fake_key_transport nonce ch caps reply) cmd rc f =
    map_option (\<lambda>e. (Inl (Key (DidNotAnswer (f_name f) e)), f))
      (case f_recvErr f of Some e \<Rightarrow> Some e | None \<Rightarrow> f_ctx f)"
  using assms by (cases "f_ctx f") (auto simp: receive_loop.simps split: option.split)

section \<open>Properties\<close>

text \<open>
  C14. The wire is transparent: over a connection at rest, any sequence of CTAP2 commands is the
  sequence of calls of the authenticator behind the key, each answer the call's and the state at
  the end the one the calls lead to, whatever the authenticator answers -- replies of any length up
  to the framing's limit or beyond it, refusals, nothing.  The connection is at rest again.
\<close>

theorem commands_are_calls:
  assumes "plugged_in nonce ch caps reply k f"
  shows "\<exists>f'. run_commands (CBOR k) cs f = Some (fst (run_calls (call reply) cs (f_auth f)), f') \<and>
    plugged_in nonce ch caps reply k f' \<and> f_auth f' = snd (run_calls (call reply) cs (f_auth f))"
  by (rule wire.runs [OF assms])

theorem commands_are_calls_witness:
  "\<exists>f'. run_commands (CBOR \<lparr>k_t = Some (fake_key_transport [] 5 4 (\<lambda>cmd params n. (Some [0, cmd], n + length params))),
        k_channel = 5, k_version = zero_version, k_caps = 4\<rparr>) [(9, replicate 100 1), (8, [])] (newFake 5 (3 :: nat)) =
      Some ([Inr [9], Inr [8]], f') \<and> f_auth f' = 103"
proof -
  let ?reply = "\<lambda>cmd params n. (Some [0, cmd], n + length params :: nat)"
  have "plugged_in [] 5 4 ?reply \<lparr>k_t = Some (fake_key_transport [] 5 4 ?reply), k_channel = 5,
      k_version = zero_version, k_caps = 4\<rparr> (newFake 5 3)"
    by (simp add: plugged_in_def quiet_newFake BroadcastChannel_def)
  from commands_are_calls [OF this, of "[(9, replicate 100 1), (8, [])]"] show ?thesis
    by (simp add: call_def wire_simps newFake_def StatusOK_def del: run_commands.simps) blast
qed

text \<open>
  C22. \<open>Open\<close> meets such a key: the handshake ends with a key on the channel it assigned, with its
  capabilities and version, the transport open and the authenticator undisturbed, ready for
  commands.
\<close>

theorem Open_meets_the_key:
  assumes "randomNonce 8 f = (Inr nonce, f)" and "length nonce = 8" and "ch \<noteq> BroadcastChannel"
    and "quiet_key ch f"
  shows "\<exists>k f'. Open randomNonce (fake_key_transport nonce ch caps reply) f = Some (Inr k, f') \<and>
    plugged_in nonce ch caps reply k f' \<and>
    k_version k = \<lparr>v_CTAPHID = 2, v_Major = 5, v_Minor = 7, v_Build = 4\<rparr> \<and>
    f_auth f' = f_auth f \<and> f_closed f' = f_closed f"
  by (rule Open_fake [where randomNonce = randomNonce and f = f and nonce = nonce and ch = ch and
      caps = caps and reply = reply, OF assms]) blast

theorem Open_meets_the_key_witness:
  "\<exists>k f'. Open (\<lambda>n f. (Inr [1, 2, 3, 4, 5, 6, 7, 8], f))
      (fake_key_transport [1, 2, 3, 4, 5, 6, 7, 8] 9 5 (\<lambda>cmd params n. (None, n))) (newFake 9 (3 :: nat)) =
    Some (Inr k, f') \<and> k_channel k = 9 \<and> k_caps k = 5 \<and> f_closed f' = 0"
  using Open_meets_the_key [of "\<lambda>n f. (Inr [1, 2, 3, 4, 5, 6, 7, 8], f)" "newFake 9 (3 :: nat)"
      "[1, 2, 3, 4, 5, 6, 7, 8]" 9 5 "\<lambda>cmd params n. (None, n)", OF refl _ _ quiet_newFake]
  by (auto simp: plugged_in_def BroadcastChannel_def newFake_def)

text \<open>
  C18. A faulty transport is reported for what it is.  If sending fails, the request ends there, with
  the error given and nothing on the wire or in the world changed.  If receiving fails, or the key
  never says anything, all of the request has gone out; it ends with the transport's error, or the
  context's when that ends, and if the context never ends it does not return.
\<close>

theorem faults_are_reported:
  assumes "k_t k = Some (fake_key_transport nonce ch caps reply)" and "length data \<le> MaxMessage"
    and "f_sendErr f \<noteq> None \<or> f_recvErr f \<noteq> None \<or> f_blockAll f"
  shows "case f_sendErr f of
      Some e \<Rightarrow> roundTrip k cmd data f = Some (Inl (Key (CannotSend (f_name f) e)), f)
    | None \<Rightarrow> \<exists>f1. f_sent f1 = f_sent f @ packets (k_channel k) cmd data \<and>
        roundTrip k cmd data f = (case (case f_recvErr f of Some e \<Rightarrow> Some e | None \<Rightarrow> f_ctx f) of
            Some e \<Rightarrow> Some (Inl (Key (DidNotAnswer (f_name f) e)), f1)
          | None \<Rightarrow> None)"
proof (cases "f_sendErr f")
  case (Some e)
  let ?T = "fake_key_transport nonce ch caps reply"
  obtain p ps where "packets (k_channel k) cmd data = p # ps" by (metis packets_def)
  moreover have "tr_Send ?T p f = (Some e, f)"
    using Some by (simp add: fake_key_transport_def fakeTransport_def)
  ultimately have "send_packets ?T (packets (k_channel k) cmd data) f = Some (Inl (Key (CannotSend (f_name f) e)), f)"
    using send_packets_fails [of ?T f "[]" p e f ps] by simp
  with Some show ?thesis by (simp add: roundTrip_open [OF assms(1,2)])
next
  case None
  from faulty_sends [OF this, of nonce ch caps reply "packets (k_channel k) cmd data"] obtain f1 where
    sent: "trace (fake_key_transport nonce ch caps reply) f (sent_all (packets (k_channel k) cmd data)) f1"
    and f1: "faults f1 = faults f" "f_sent f1 = f_sent f @ packets (k_channel k) cmd data" by blast
  from f1(1) have same: "f_recvErr f1 = f_recvErr f" "f_blockAll f1 = f_blockAll f" "f_ctx f1 = f_ctx f"
    "f_name f1 = f_name f" by (simp_all add: faults_def)
  with assms(3) None have "f_recvErr f1 \<noteq> None \<or> f_blockAll f1" by simp
  from faulty_receive [OF this] have "roundTrip k cmd data f =
      map_option (\<lambda>e. (Inl (Key (DidNotAnswer (f_name f) e)), f1))
        (case f_recvErr f of Some e \<Rightarrow> Some e | None \<Rightarrow> f_ctx f)"
    unfolding roundTrip_sent [OF assms(1,2) sent] same [symmetric] by blast
  with f1(2) None show ?thesis
    by (cases "f_recvErr f"; cases "f_ctx f") (auto intro!: exI [of _ f1])
qed

theorem faults_are_reported_witness:
  "roundTrip (fake_key (fake_key_transport [] 5 4 (\<lambda>cmd params n. (None, n))) 5 zero_version 4) CmdPing [1]
      ((newFake 5 (0 :: nat))\<lparr>f_sendErr := Some ''gone''\<rparr>) =
    Some (Inl (Key (CannotSend ''Test Key'' ''gone'')), (newFake 5 0)\<lparr>f_sendErr := Some ''gone''\<rparr>) \<and>
   (\<exists>f1. roundTrip (fake_key (fake_key_transport [] 5 4 (\<lambda>cmd params n. (None, n))) 5 zero_version 4) CmdPing [1]
      ((newFake 5 (0 :: nat))\<lparr>f_blockAll := True\<rparr>) =
    Some (Inl (Key (DidNotAnswer ''Test Key'' ''context deadline exceeded'')), f1))"
  using faults_are_reported [of "fake_key (fake_key_transport [] 5 4 (\<lambda>cmd params n. (None, n))) 5 zero_version 4"
      "[]" 5 4 "\<lambda>cmd params n. (None, n)" "[1]" "(newFake 5 (0 :: nat))\<lparr>f_sendErr := Some ''gone''\<rparr>" CmdPing]
    faults_are_reported [of "fake_key (fake_key_transport [] 5 4 (\<lambda>cmd params n. (None, n))) 5 zero_version 4"
      "[]" 5 4 "\<lambda>cmd params n. (None, n)" "[1]" "(newFake 5 (0 :: nat))\<lparr>f_blockAll := True\<rparr>" CmdPing]
  by (auto simp: fake_key_def newFake_def wire_simps)

end
