(* ===== verification/Codec.thy ===== *)
theory Codec
  imports Cbor GoText P256
begin

text \<open>
  A library that satisfies what is assumed of \<open>github.com/fxamacker/cbor\<close>: the part of CBOR
  (RFC 8949) that the program speaks -- integers, byte and text strings, booleans, arrays, and maps
  with integer or string keys, all of definite length -- written out as an encoder and decoders.
  It is not a model of that package, which remains a parameter; it is the instance on which
  theorems with hypotheses about the library are tried.
\<close>

section \<open>Heads\<close>

definition cb_head :: "nat \<Rightarrow> nat \<Rightarrow> bytes" where
  "cb_head major n =
     (let initial = (\<lambda>a. of_nat (32 * major + a)) in
      if n < 24 then [initial n]
      else if n < 2 ^ 8 then initial 24 # be_bytes 1 n
      else if n < 2 ^ 16 then initial 25 # be_bytes 2 n
      else if n < 2 ^ 32 then initial 26 # be_bytes 4 n
      else initial 27 # be_bytes 8 n)"

fun read_head :: "bytes \<Rightarrow> (nat \<times> nat \<times> bytes) option" where
  "read_head [] = None"
| "read_head (b # r) =
     (let major = unat b div 32; a = unat b mod 32; k = 2 ^ (a - 24) in
      if a < 24 then Some (major, a, r)
      else if a < 28 \<and> k \<le> length r then Some (major, SetBytes (take k r), drop k r)
      else None)"

lemma read_head_shorter: "read_head b = Some (m, n, r) \<Longrightarrow> length r < length b"
  by (cases b) (auto simp: Let_def less_Suc_eq_le split: if_splits)

lemma initial_byte:
  assumes "major < 8" and "a < 32"
  shows "unat (of_nat (32 * major + a) :: byte) div 32 = major"
    and "unat (of_nat (32 * major + a) :: byte) mod 32 = a"
proof -
  have "unat (of_nat (32 * major + a) :: byte) = 32 * major + a"
    using assms by (simp add: unat_of_nat take_bit_eq_mod del: of_nat_add of_nat_mult)
  with assms show "unat (of_nat (32 * major + a) :: byte) div 32 = major"
    and "unat (of_nat (32 * major + a) :: byte) mod 32 = a"
    by simp_all
qed

lemma read_head_cb_head:
  assumes "major < 8" and "n < 2 ^ 64"
  shows "read_head (cb_head major n @ r) = Some (major, n, r)"
proof -
  have long: "read_head (of_nat (32 * major + a) # be_bytes k n @ r) = Some (major, n, r)"
    if "24 \<le> a" "a < 28" "k = 2 ^ (a - 24)" "n < 256 ^ k" for a k
    using that assms initial_byte [of major a] by (simp add: SetBytes_be_bytes)
  consider "n < 24" | "24 \<le> n" "n < 2 ^ 8" | "2 ^ 8 \<le> n" "n < 2 ^ 16" | "2 ^ 16 \<le> n" "n < 2 ^ 32"
    | "2 ^ 32 \<le> n" "n < 2 ^ 64"
    using assms(2) by linarith
  then show ?thesis
  proof cases
    case 1
    then show ?thesis using assms initial_byte [of major n] by (simp add: cb_head_def)
  next
    case 2
    then show ?thesis using long [of 24 1] by (simp add: cb_head_def)
  next
    case 3
    then show ?thesis using long [of 25 2] by (simp add: cb_head_def)
  next
    case 4
    then show ?thesis using long [of 26 4] by (simp add: cb_head_def)
  next
    case 5
    then show ?thesis using long [of 27 8] by (simp add: cb_head_def)
  qed
qed

section \<open>Well-formed items\<close>

text \<open>
  \<open>skip_items n b\<close> is what is left of \<open>b\<close> behind \<open>n\<close> items.  The items nested in an array or a
  map are put on the same count, so that one recursion over the bytes is enough.
\<close>

function skip_items :: "nat \<Rightarrow> bytes \<Rightarrow> bytes option" where
  "skip_items n b =
     (if n = 0 then Some b
      else case read_head b of None \<Rightarrow> None
        | Some (major, v, r) \<Rightarrow>
            if major \<in> {0, 1, 7} then skip_items (n - 1) r
            else if major \<in> {2, 3} then
              if length r < v then None else skip_items (n - 1) (drop v r)
            else if major = 4 then skip_items (v + (n - 1)) r
            else if major = 5 then skip_items (2 * v + (n - 1)) r
            else skip_items n r)"
  by pat_completeness auto
termination
  by (relation "measure (\<lambda>(n, b). length b)") (auto dest: read_head_shorter)

declare skip_items.simps [simp del]

lemma skip_items_0 [simp]: "skip_items 0 b = Some b"
  by (simp add: skip_items.simps)

section \<open>The encoder\<close>

definition encode_int :: "int \<Rightarrow> bytes option" where
  "encode_int i =
     (if 0 \<le> i \<and> i < 2 ^ 64 then Some (cb_head 0 (nat i))
      else if - (2 ^ 64) \<le> i \<and> i < 0 then Some (cb_head 1 (nat (-1 - i)))
      else None)"

definition encode_text :: "string \<Rightarrow> bytes option" where
  "encode_text s = (if length s < 2 ^ 64 then Some (cb_head 3 (length s) @ bytes_of_string s) else None)"

text \<open>The elements of an array and a map's entries, their values as already encoded.\<close>

definition encode_elements :: "bytes option list \<Rightarrow> bytes option" where
  "encode_elements es = (case those es of
     None \<Rightarrow> None
   | Some bs \<Rightarrow> if length bs < 2 ^ 64 then Some (cb_head 4 (length bs) @ concat bs) else None)"

fun encode_entry :: "('k \<Rightarrow> bytes option) \<Rightarrow> 'k \<times> bytes option option \<Rightarrow> (bytes \<times> bytes) option" where
  "encode_entry enc (k, Some (Some v)) = map_option (\<lambda>a. (a, v)) (enc k)"
| "encode_entry enc _ = None"

definition encode_entries :: "('k \<Rightarrow> bytes option) \<Rightarrow> ('k \<times> bytes option option) list \<Rightarrow> bytes option" where
  "encode_entries enc es = (case those (map (encode_entry enc) es) of
     None \<Rightarrow> None
   | Some ps \<Rightarrow> if length ps < 2 ^ 64
       then Some (cb_head 5 (length ps) @ concat (map (\<lambda>(a, b). a @ b) ps)) else None)"

definition encode_map :: "('k :: linorder \<Rightarrow> bytes option) \<Rightarrow> ('k \<Rightarrow> bytes option option) \<Rightarrow> bytes option" where
  "encode_map enc e =
     (if finite (dom e) then encode_entries enc (map (\<lambda>k. (k, e k)) (sorted_list_of_set (dom e))) else None)"

primrec encode :: "gval \<Rightarrow> bytes option" where
  "encode (GInt i) = encode_int i"
| "encode (GBytes x) = (if length x < 2 ^ 64 then Some (cb_head 2 (length x) @ x) else None)"
| "encode (GText s) = encode_text s"
| "encode (GBool v) = Some [if v then 0xf5 else 0xf4]"
| "encode (GArray vs) = encode_elements (map encode vs)"
| "encode (GTextMap m) = encode_map encode_text (\<lambda>k. map_option encode (m k))"
| "encode (GIntMap m) = encode_map encode_int (\<lambda>k. map_option encode (m k))"

section \<open>Decoders\<close>

definition dec_int :: "bytes \<Rightarrow> ext_error + int" where
  "dec_int b = (case read_head b of
     Some (major, n, []) \<Rightarrow>
       if 2 ^ 63 \<le> n then Inl ''overflow''
       else if major = 0 then Inr (int n) else if major = 1 then Inr (-1 - int n) else Inl ''not an integer''
   | _ \<Rightarrow> Inl ''not an integer'')"

definition dec_uint :: "bytes \<Rightarrow> ext_error + u64" where
  "dec_uint b = (case read_head b of
     Some (major, n, []) \<Rightarrow> if major = 0 then Inr (of_nat n) else Inl ''not an unsigned integer''
   | _ \<Rightarrow> Inl ''not an unsigned integer'')"

definition dec_string :: "nat \<Rightarrow> bytes \<Rightarrow> ext_error + bytes" where
  "dec_string kind b = (case read_head b of
     Some (major, n, r) \<Rightarrow> if major = kind \<and> length r = n then Inr r else Inl ''not a string''
   | None \<Rightarrow> Inl ''not a string'')"

definition dec_text :: "bytes \<Rightarrow> ext_error + string" where
  "dec_text b = map_sum id (map (\<lambda>x. char_of (unat x))) (dec_string 3 b)"

definition dec_bool :: "bytes \<Rightarrow> ext_error + bool" where
  "dec_bool b = (if b = [0xf5] then Inr True else if b = [0xf4] then Inr False else Inl ''not a boolean'')"

definition split_item :: "bytes \<Rightarrow> (bytes \<times> bytes) option" where
  "split_item b = (case skip_items 1 b of None \<Rightarrow> None | Some r \<Rightarrow> Some (take (length b - length r) b, r))"

fun read_elements :: "nat \<Rightarrow> bytes \<Rightarrow> bytes list option" where
  "read_elements 0 b = (if b = [] then Some [] else None)"
| "read_elements (Suc n) b = (case split_item b of
     None \<Rightarrow> None
   | Some (v, r) \<Rightarrow> map_option ((#) v) (read_elements n r))"

fun read_entries :: "nat \<Rightarrow> bytes \<Rightarrow> (bytes \<times> bytes) list option" where
  "read_entries 0 b = (if b = [] then Some [] else None)"
| "read_entries (Suc n) b = (case split_item b of
     None \<Rightarrow> None
   | Some (k, r) \<Rightarrow> (case split_item r of
       None \<Rightarrow> None
     | Some (v, r1) \<Rightarrow> map_option ((#) (k, v)) (read_entries n r1)))"

fun dec_all :: "('b \<Rightarrow> ext_error + 'v) \<Rightarrow> 'b list \<Rightarrow> ext_error + 'v list" where
  "dec_all dec [] = Inr []"
| "dec_all dec (b # bs) = (case dec b of
     Inl e \<Rightarrow> Inl e
   | Inr v \<Rightarrow> map_sum id ((#) v) (dec_all dec bs))"

definition dec_raws :: "bytes \<Rightarrow> ext_error + bytes list" where
  "dec_raws b = (case read_head b of
     Some (major, n, r) \<Rightarrow> if major \<noteq> 4 then Inl ''not an array'' else (case read_elements n r of
         None \<Rightarrow> Inl ''not well-formed'' | Some bs \<Rightarrow> Inr bs)
   | None \<Rightarrow> Inl ''not well-formed'')"

definition dec_array :: "(bytes \<Rightarrow> ext_error + 'v) \<Rightarrow> bytes \<Rightarrow> ext_error + 'v list" where
  "dec_array dec b = (case dec_raws b of Inl e \<Rightarrow> Inl e | Inr bs \<Rightarrow> dec_all dec bs)"

definition dec_entries ::
    "(bytes \<Rightarrow> ext_error + 'k) \<Rightarrow> (bytes \<Rightarrow> ext_error + 'v) \<Rightarrow> bytes \<Rightarrow> ext_error + ('k \<times> 'v) list" where
  "dec_entries dec_key dec_value b = (case read_head b of
     Some (major, n, r) \<Rightarrow> if major \<noteq> 5 then Inl ''not a map'' else (case read_entries n r of
         None \<Rightarrow> Inl ''not well-formed''
       | Some es \<Rightarrow> dec_all (\<lambda>(k, v). case dec_key k of
           Inl e \<Rightarrow> Inl e | Inr k \<Rightarrow> map_sum id (Pair k) (dec_value v)) es)
   | None \<Rightarrow> Inl ''not well-formed'')"

definition dec_map :: "(bytes \<Rightarrow> ext_error + 'k) \<Rightarrow> bytes \<Rightarrow> ext_error + ('k \<Rightarrow> bytes option)" where
  "dec_map dec b = map_sum id map_of (dec_entries dec Inr b)"

text \<open>A field of a struct keeps its zero value when the map has no such member.\<close>

definition dec_field :: "(string \<Rightarrow> bytes option) \<Rightarrow> string \<Rightarrow> (bytes \<Rightarrow> ext_error + 'v) \<Rightarrow> 'v \<Rightarrow> ext_error + 'v" where
  "dec_field m name dec zero = (case m name of None \<Rightarrow> Inr zero | Some b \<Rightarrow> dec b)"

definition dec_descriptor :: "bytes \<Rightarrow> ext_error + (string \<times> bytes)" where
  "dec_descriptor b = (case dec_map dec_text b of
     Inl e \<Rightarrow> Inl e
   | Inr m \<Rightarrow> (case dec_field m ''type'' dec_text [] of
       Inl e \<Rightarrow> Inl e
     | Inr ty \<Rightarrow> map_sum id (Pair ty) (dec_field m ''id'' (dec_string 2) [])))"

definition dec_user :: "bytes \<Rightarrow> ext_error + bytes" where
  "dec_user b = (case dec_map dec_text b of
     Inl e \<Rightarrow> Inl e | Inr m \<Rightarrow> dec_field m ''id'' (dec_string 2) [])"

definition codec :: cbor where
  "codec =
     \<lparr>cb_marshal = (\<lambda>v. case encode v of None \<Rightarrow> Inl ''unsupported'' | Some b \<Rightarrow> Inr b),
      cb_map_u64 = dec_map dec_uint,
      cb_map_i64 = dec_map dec_int,
      cb_map_text = dec_map dec_text,
      cb_raws = dec_raws,
      cb_bytes = dec_string 2,
      cb_text = dec_text,
      cb_texts = dec_array dec_text,
      cb_options = dec_entries dec_text dec_bool,
      cb_uint = dec_uint,
      cb_uints = dec_array dec_uint,
      cb_int = dec_int,
      cb_bool = dec_bool,
      cb_descriptor = dec_descriptor,
      cb_user = dec_user,
      cb_raw = (\<lambda>b. if skip_items 1 b = Some [] then Inr b else Inl ''not well-formed''),
      cb_decode = (\<lambda>b. case split_item b of None \<Rightarrow> Inl ''not well-formed''
         | Some (raw, r) \<Rightarrow> Inr (raw, length raw))\<rparr>"

section \<open>Lemmas\<close>

lemma skip_items_head:
  assumes "major < 8" and "v < 2 ^ 64"
  shows "skip_items (Suc n) (cb_head major v @ r) =
     (if major \<in> {0, 1, 7} then skip_items n r
      else if major \<in> {2, 3} then if length r < v then None else skip_items n (drop v r)
      else if major = 4 then skip_items (v + n) r
      else if major = 5 then skip_items (2 * v + n) r
      else skip_items (Suc n) r)"
  by (subst skip_items.simps) (simp add: read_head_cb_head [OF assms])

definition is_item :: "bytes \<Rightarrow> bool" where
  "is_item b \<longleftrightarrow> (\<forall>n r. skip_items (Suc n) (b @ r) = skip_items n r)"

lemma is_item_skip [simp]: "is_item b \<Longrightarrow> skip_items (Suc n) (b @ r) = skip_items n r"
  by (simp add: is_item_def)

lemma those_Some: "those xs = Some ys \<longleftrightarrow> xs = map Some ys"
proof (induction xs arbitrary: ys)
  case (Cons x xs)
  then show ?case by (cases ys) (auto split: option.splits)
qed auto

lemma skip_concat:
  assumes "\<forall>b \<in> set bs. is_item b"
  shows "skip_items (length bs + n) (concat bs @ r) = skip_items n r"
  using assms by (induction bs) simp_all

lemma skip_pairs:
  assumes "\<forall>(a, b) \<in> set ps. is_item a \<and> is_item b"
  shows "skip_items (2 * length ps + n) (concat (map (\<lambda>(a, b). a @ b) ps) @ r) = skip_items n r"
  using assms
proof (induction ps)
  case (Cons p ps)
  obtain a b where p: "p = (a, b)" by fastforce
  from Cons.prems p have "is_item a" "is_item b" by auto
  with Cons p show ?case by simp
qed simp

lemma is_item_head: "major \<in> {0, 1} \<Longrightarrow> v < 2 ^ 64 \<Longrightarrow> is_item (cb_head major v)"
  by (auto simp: is_item_def skip_items_head)

lemma is_item_string: "major \<in> {2, 3} \<Longrightarrow> length x < 2 ^ 64 \<Longrightarrow> is_item (cb_head major (length x) @ x)"
  by (auto simp: is_item_def skip_items_head)

lemma read_head_whole: "major < 8 \<Longrightarrow> n < 2 ^ 64 \<Longrightarrow> read_head (cb_head major n) = Some (major, n, [])"
  using read_head_cb_head [of major n "[]"] by simp

lemma dec_int_head:
  "n < 2 ^ 63 \<Longrightarrow> dec_int (cb_head 0 n) = Inr (int n)"
  "n < 2 ^ 63 \<Longrightarrow> dec_int (cb_head 1 n) = Inr (-1 - int n)"
  by (simp_all add: dec_int_def read_head_whole)

lemma dec_string_head: "major < 8 \<Longrightarrow> length x < 2 ^ 64 \<Longrightarrow> dec_string major (cb_head major (length x) @ x) = Inr x"
  by (simp add: dec_string_def read_head_cb_head)

lemma char_of_byte: "char_of (unat (of_char c :: byte)) = c"
proof -
  have "(of_char c :: byte) = of_nat (of_char c :: nat)" by (simp only: of_nat_of_char)
  then have "unat (of_char c :: byte) = of_char c mod 256"
    by (simp only: unat_of_nat take_bit_eq_mod) simp
  then show ?thesis by simp
qed

text \<open>Numbers and strings, which are keys as well as values.\<close>

lemma encode_int_Some:
  assumes "encode_int k = Some a"
  shows "is_item a \<and> (int64 k \<longrightarrow> dec_int a = Inr k) \<and> (0 \<le> k \<and> k < 2 ^ 64 \<longrightarrow> dec_uint a = Inr (of_int k))"
proof (cases "0 \<le> k")
  case True
  with assms have "k < 2 ^ 64" "a = cb_head 0 (nat k)" by (auto simp: encode_int_def split: if_splits)
  with True show ?thesis
    using dec_int_head(1) [of "nat k"]
    by (auto simp: is_item_head int64_def dec_uint_def read_head_whole nat_less_iff)
next
  case False
  with assms have "- (2 ^ 64) \<le> k" "a = cb_head 1 (nat (-1 - k))" by (auto simp: encode_int_def split: if_splits)
  with False show ?thesis
    using dec_int_head(2) [of "nat (-1 - k)"]
    by (auto simp: is_item_head int64_def nat_less_iff)
qed

lemma encode_text_Some:
  assumes "encode_text s = Some a"
  shows "is_item a \<and> dec_text a = Inr s"
proof -
  have "map (\<lambda>x. char_of (unat (of_char x :: byte))) s = s"
    by (intro map_idI) (simp add: char_of_byte)
  with assms show ?thesis
    using dec_string_head [of 3 "bytes_of_string s"] is_item_string [of 3 "bytes_of_string s"]
    by (auto simp: encode_text_def dec_text_def comp_def split: if_splits)
qed

text \<open>Arrays and maps of items.\<close>

lemma encode_elements_Some:
  assumes "encode_elements (map f xs) = Some b"
  obtains g where "\<And>x. x \<in> set xs \<Longrightarrow> f x = Some (g x)" and "length xs < 2 ^ 64"
    and "b = cb_head 4 (length xs) @ concat (map g xs)"
proof -
  from assms obtain bs where bs: "map f xs = map Some bs" "length bs < 2 ^ 64"
    "b = cb_head 4 (length bs) @ concat bs"
    by (auto simp: encode_elements_def those_Some split: option.splits if_splits)
  have "map (the \<circ> f) xs = map the (map f xs)" by simp
  also have "\<dots> = bs" unfolding bs(1) by (simp add: comp_def)
  finally have g: "map (the \<circ> f) xs = bs" .
  have "f x = Some ((the \<circ> f) x)" if "x \<in> set xs" for x
  proof -
    from that have "f x \<in> set (map f xs)" by simp
    then show ?thesis unfolding bs(1) by auto
  qed
  then show ?thesis using bs(2,3) map_eq_imp_length_eq [OF bs(1)] g by (intro that [of "the \<circ> f"]) auto
qed

lemma encode_entry_Some: "encode_entry enc (k, e) = Some p \<Longrightarrow> e = Some (Some (snd p)) \<and> enc k = Some (fst p)"
  by (erule encode_entry.elims) (auto dest!: sym [of "Some p"])

lemma encode_map_Some:
  assumes "encode_map enc (\<lambda>k. map_option encode (m k)) = Some b"
  obtains f ks where "set ks = dom m" and "distinct ks" and "length ks < 2 ^ 64"
    and "\<And>k v. m k = Some v \<Longrightarrow> enc k = Some (fst (f k)) \<and> encode v = Some (snd (f k))"
    and "b = cb_head 5 (length ks) @ concat (map (\<lambda>(a, b). a @ b) (map f ks))"
proof -
  define e where "e = (\<lambda>k. map_option encode (m k))"
  define ks where "ks = sorted_list_of_set (dom e)"
  have dom: "dom e = dom m" by (auto simp: e_def)
  from assms obtain ps where fin: "finite (dom e)"
    and ps: "map (\<lambda>k. encode_entry enc (k, e k)) ks = map Some ps"
    "length ps < 2 ^ 64" "b = cb_head 5 (length ps) @ concat (map (\<lambda>(a, b). a @ b) ps)"
    by (auto simp: encode_map_def encode_entries_def those_Some e_def [symmetric] ks_def comp_def
        split: option.splits if_splits)
  define f where "f k = the (encode_entry enc (k, e k))" for k
  have "map f ks = map the (map (\<lambda>k. encode_entry enc (k, e k)) ks)" by (simp add: f_def)
  also have "\<dots> = ps" unfolding ps(1) by (simp add: comp_def)
  finally have f: "map f ks = ps" .
  have ks: "set ks = dom m" "distinct ks" using fin by (simp_all add: ks_def dom)
  have "encode_entry enc (k, e k) = Some (f k)" if "k \<in> set ks" for k
  proof -
    from that have "encode_entry enc (k, e k) \<in> set (map (\<lambda>k. encode_entry enc (k, e k)) ks)" by simp
    then show ?thesis unfolding ps(1) by (auto simp: f_def)
  qed
  then have "enc k = Some (fst (f k)) \<and> encode v = Some (snd (f k))" if "m k = Some v" for k v
    using that ks encode_entry_Some [of enc k "e k" "f k"] by (force simp: e_def)
  then show ?thesis using ks ps(2,3) map_eq_imp_length_eq [OF ps(1)] f by (intro that [of ks f]) auto
qed

lemma range_option: "m k = Some v \<Longrightarrow> Some v \<in> range m"
  by (metis rangeI)

lemma entries_item:
  assumes "length ks < 2 ^ 64" and "\<forall>k \<in> set ks. is_item (fst (f k)) \<and> is_item (snd (f k))"
  shows "is_item (cb_head 5 (length ks) @ concat (map (\<lambda>(a, b). a @ b) (map f ks)))"
proof -
  have "\<forall>(a, b) \<in> set (map f ks). is_item a \<and> is_item b" using assms(2) by (auto simp: split_beta)
  from skip_pairs [OF this] assms(1) show ?thesis by (simp add: is_item_def skip_items_head)
qed

text \<open>What is encoded is one item.\<close>

lemma encode_is_item: "encode v = Some b \<Longrightarrow> is_item b"
proof (induction v arbitrary: b)
  case (GInt i)
  then show ?case by (simp add: encode_int_Some)
next
  case (GBytes x)
  then show ?case by (auto intro: is_item_string split: if_splits)
next
  case (GText s)
  then show ?case by (simp add: encode_text_Some)
next
  case (GBool v)
  then show ?case by (auto simp: is_item_def skip_items.simps)
next
  case (GArray vs)
  then have "encode_elements (map encode vs) = Some b" by simp
  then obtain g where g: "\<And>v. v \<in> set vs \<Longrightarrow> encode v = Some (g v)" "length vs < 2 ^ 64"
    "b = cb_head 4 (length vs) @ concat (map g vs)" by (rule encode_elements_Some) blast
  with GArray.IH have "\<forall>b \<in> set (map g vs). is_item b" by auto
  from skip_concat [OF this] g(2,3) show ?case by (simp add: is_item_def skip_items_head)
next
  case (GTextMap m)
  then have "encode_map encode_text (\<lambda>k. map_option encode (m k)) = Some b" by simp
  then obtain f ks where ks: "set ks = dom m" "length ks < 2 ^ 64"
    and f: "\<And>k v. m k = Some v \<Longrightarrow> encode_text k = Some (fst (f k)) \<and> encode v = Some (snd (f k))"
    and b: "b = cb_head 5 (length ks) @ concat (map (\<lambda>(a, b). a @ b) (map f ks))"
    by (rule encode_map_Some) blast
  have "is_item (fst (f k)) \<and> is_item (snd (f k))" if "m k = Some v" for k v
    using f [OF that] GTextMap.IH [OF range_option [of m k v, OF that]] encode_text_Some by auto
  with ks show ?case unfolding b by (intro entries_item) auto
next
  case (GIntMap m)
  then have "encode_map encode_int (\<lambda>k. map_option encode (m k)) = Some b" by simp
  then obtain f ks where ks: "set ks = dom m" "length ks < 2 ^ 64"
    and f: "\<And>k v. m k = Some v \<Longrightarrow> encode_int k = Some (fst (f k)) \<and> encode v = Some (snd (f k))"
    and b: "b = cb_head 5 (length ks) @ concat (map (\<lambda>(a, b). a @ b) (map f ks))"
    by (rule encode_map_Some) blast
  have "is_item (fst (f k)) \<and> is_item (snd (f k))" if "m k = Some v" for k v
    using f [OF that] GIntMap.IH [OF range_option [of m k v, OF that]] encode_int_Some by auto
  with ks show ?case unfolding b by (intro entries_item) auto
qed

lemma is_item_raw: "is_item b \<Longrightarrow> cb_raw codec b = Inr b"
  using is_item_skip [of b 0 "[]"] by (simp add: codec_def)

lemma encode_raw: "encode v = Some b \<Longrightarrow> cb_raw codec b = Inr b"
  by (rule is_item_raw) (rule encode_is_item)

text \<open>Reading them back.\<close>

lemma split_item_append: "is_item a \<Longrightarrow> split_item (a @ r) = Some (a, r)"
  using is_item_skip [of a 0 r] by (simp add: split_item_def)

lemma read_elements_concat:
  assumes "\<forall>b \<in> set bs. is_item b"
  shows "read_elements (length bs) (concat bs) = Some bs"
  using assms by (induction bs) (simp_all add: split_item_append)

lemma read_entries_concat:
  assumes "\<forall>(a, b) \<in> set ps. is_item a \<and> is_item b"
  shows "read_entries (length ps) (concat (map (\<lambda>(a, b). a @ b) ps)) = Some ps"
  using assms
proof (induction ps)
  case (Cons p ps)
  obtain a b where p: "p = (a, b)" by fastforce
  from Cons.prems p have "is_item a" "is_item b" by auto
  with Cons p show ?case by (simp add: split_item_append)
qed simp

lemma dec_all_map:
  assumes "\<forall>x \<in> set xs. dec (f x) = Inr (g x)"
  shows "dec_all dec (map f xs) = Inr (map g xs)"
  using assms by (induction xs) auto

lemma dec_raws_elements:
  assumes "length xs < 2 ^ 64" and "\<forall>x \<in> set xs. is_item (g x)"
  shows "dec_raws (cb_head 4 (length xs) @ concat (map g xs)) = Inr (map g xs)"
proof -
  have "read_elements (length (map g xs)) (concat (map g xs)) = Some (map g xs)"
    by (rule read_elements_concat) (use assms(2) in simp)
  then show ?thesis by (simp add: dec_raws_def read_head_cb_head [OF _ assms(1)])
qed

lemma dec_entries_map:
  assumes "length ks < 2 ^ 64" and "\<forall>k \<in> set ks. is_item (fst (f k)) \<and> is_item (snd (f k))"
    and "\<forall>k \<in> set ks. dk (fst (f k)) = Inr (g k) \<and> dv (snd (f k)) = Inr (h k)"
  shows "dec_entries dk dv (cb_head 5 (length ks) @ concat (map (\<lambda>(a, b). a @ b) (map f ks))) =
    Inr (map (\<lambda>k. (g k, h k)) ks)"
proof -
  have "\<forall>(a, b) \<in> set (map f ks). is_item a \<and> is_item b" using assms(2) by (auto simp: split_beta)
  from read_entries_concat [OF this]
  have "read_entries (length ks) (concat (map (\<lambda>(a, b). a @ b) (map f ks))) = Some (map f ks)" by simp
  moreover have "dec_all (\<lambda>(k, v). case dk k of Inl e \<Rightarrow> Inl e | Inr k \<Rightarrow> map_sum id (Pair k) (dv v)) (map f ks) =
      Inr (map (\<lambda>k. (g k, h k)) ks)"
    by (rule dec_all_map) (use assms(3) in \<open>auto simp: split_beta\<close>)
  ultimately show ?thesis
    by (simp add: dec_entries_def read_head_cb_head [OF _ assms(1)])
qed

lemma dec_map_entries:
  assumes "length ks < 2 ^ 64" and "\<forall>k \<in> set ks. is_item (fst (f k)) \<and> is_item (snd (f k))"
    and "\<forall>k \<in> set ks. dec (fst (f k)) = Inr (g k)"
  shows "dec_map dec (cb_head 5 (length ks) @ concat (map (\<lambda>(a, b). a @ b) (map f ks))) =
    Inr (map_of (map (\<lambda>k. (g k, snd (f k))) ks))"
  using dec_entries_map [OF assms(1,2), of dec g Inr "\<lambda>k. snd (f k)"] assms(3) by (simp add: dec_map_def)

lemma map_of_keys:
  "map_of (map (\<lambda>k. (k, h k)) ks) x = (if x \<in> set ks then Some (h x) else None)"
  by (induction ks) auto

lemma map_of_word_keys:
  assumes "\<forall>k \<in> set ks. 0 \<le> k \<and> k < 2 ^ 64"
  shows "map_of (map (\<lambda>k. (of_int k :: u64, h k)) ks) x =
    (if uint x \<in> set ks then Some (h (uint x)) else None)"
  using assms
proof (induction ks)
  case (Cons k ks)
  then have "of_int k = x \<longleftrightarrow> k = uint x"
    by (auto simp: uint_word_of_int_eq take_bit_eq_mod)
  with Cons show ?case by auto
qed simp

lemma codec_simps [simp]:
  "cb_marshal codec v = (case encode v of None \<Rightarrow> Inl ''unsupported'' | Some b \<Rightarrow> Inr b)"
  "cb_map_u64 codec = dec_map dec_uint" "cb_map_i64 codec = dec_map dec_int"
  "cb_map_text codec = dec_map dec_text" "cb_raws codec = dec_raws"
  "cb_bytes codec = dec_string 2" "cb_int codec = dec_int" "cb_uint codec = dec_uint"
  "cb_bool codec = dec_bool" "cb_text codec = dec_text" "cb_texts codec = dec_array dec_text"
  "cb_uints codec = dec_array dec_uint" "cb_options codec = dec_entries dec_text dec_bool"
  "cb_descriptor codec = dec_descriptor" "cb_user codec = dec_user"
  by (simp_all add: codec_def)

lemma dec_bool_encode: "encode (GBool v) = Some b \<Longrightarrow> dec_bool b = Inr v"
  by (cases v) (auto simp: dec_bool_def)

lemma dec_string_encode: "encode (GBytes x) = Some b \<Longrightarrow> dec_string 2 b = Inr x"
  by (auto simp: dec_string_head split: if_splits)

lemma codec_lists:
  assumes "\<And>v. v \<in> set vs \<Longrightarrow> encode v = Some (g v)" and "dec_raws b = Inr (map g vs)"
  shows "reads_lists codec vs b"
proof -
  have "dec_array dec_text b = Inr ss" if vs: "vs = map GText ss" for ss
  proof -
    have "\<forall>s \<in> set ss. dec_text (g (GText s)) = Inr s"
      using assms(1) encode_text_Some unfolding vs by fastforce
    then have "dec_all dec_text (map (\<lambda>s. g (GText s)) ss) = Inr (map (\<lambda>s. s) ss)" by (rule dec_all_map)
    then show ?thesis by (simp add: dec_array_def assms(2) vs comp_def)
  qed
  moreover have "dec_array dec_uint b = Inr ns" if vs: "vs = map (\<lambda>n. GInt (uint n)) ns" for ns
  proof -
    have "dec_uint (g (GInt (uint n))) = Inr n" if "n \<in> set ns" for n
    proof -
      have "encode_int (uint n) = Some (g (GInt (uint n)))"
        using assms(1) [of "GInt (uint n)"] that unfolding vs by auto
      from encode_int_Some [OF this] show ?thesis using uint_lt2p [of n] by simp
    qed
    then have "\<forall>n \<in> set ns. dec_uint (g (GInt (uint n))) = Inr n" by blast
    then have "dec_all dec_uint (map (\<lambda>n. g (GInt (uint n))) ns) = Inr (map (\<lambda>n. n) ns)" by (rule dec_all_map)
    then show ?thesis by (simp add: dec_array_def assms(2) vs comp_def)
  qed
  ultimately show ?thesis by (simp add: reads_lists_def)
qed

lemma dec_field_keys:
  "name \<in> set ks \<Longrightarrow> dec_field (map_of (map (\<lambda>k. (k, h k)) ks)) name dec zero = dec (h name)"
  by (simp add: dec_field_def map_of_keys)

lemma codec_structs:
  assumes "set ks = dom m" and "distinct ks"
    and "\<And>k v. m k = Some v \<Longrightarrow> encode v = Some (snd (f k))"
    and "dec_map dec_text b = Inr (map_of (map (\<lambda>k. (k, snd (f k))) ks))"
    and "\<And>dv (h :: string \<Rightarrow> bool). \<forall>k \<in> set ks. dv (snd (f k)) = Inr (h k) \<Longrightarrow>
      dec_entries dec_text dv b = Inr (map (\<lambda>k. (k, h k)) ks)"
  shows "reads_structs codec m b"
proof -
  have str: "dec_text (snd (f k)) = Inr s" if "m k = Some (GText s)" for k s
    using assms(3) [OF that] encode_text_Some by simp
  have bytes: "dec_string 2 (snd (f k)) = Inr x" if "m k = Some (GBytes x)" for k x
    using assms(3) [OF that] by (rule dec_string_encode)
  have "dec_descriptor b = Inr (ty, cid)" if "m ''type'' = Some (GText ty)" "m ''id'' = Some (GBytes cid)" for ty cid
    using that str [OF that(1)] bytes [OF that(2)]
    by (simp add: dec_descriptor_def assms(1,4) domI dec_field_keys)
  moreover have "dec_user b = Inr uid" if "m ''id'' = Some (GBytes uid)" for uid
    using that bytes [OF that] by (simp add: dec_user_def assms(1,4) domI dec_field_keys)
  moreover have "\<exists>got. dec_entries dec_text dec_bool b = Inr got \<and> distinct (map fst got) \<and> map_of got = map_of opts"
    if m: "m = (\<lambda>k. map_option GBool (map_of opts k))" for opts
  proof -
    define h where "h k = the (map_of opts k)" for k
    have "dec_bool (snd (f k)) = Inr (h k)" if "k \<in> set ks" for k
    proof -
      from that assms(1) obtain v where "m k = Some v" by auto
      then have "m k = Some (GBool (h k))" unfolding m h_def by (cases "map_of opts k") simp_all
      then show ?thesis using assms(3) dec_bool_encode by blast
    qed
    with assms(5) have "dec_entries dec_text dec_bool b = Inr (map (\<lambda>k. (k, h k)) ks)" by blast
    moreover have "map_of (map (\<lambda>k. (k, h k)) ks) = map_of opts"
    proof
      fix k
      show "map_of (map (\<lambda>k. (k, h k)) ks) k = map_of opts k"
      proof (cases "map_of opts k")
        case None
        then have "m k = None" by (simp add: m)
        then have "k \<notin> set ks" unfolding assms(1) by blast
        with None show ?thesis by (simp add: map_of_keys)
      next
        case (Some v)
        then have "m k = Some (GBool v)" by (simp add: m)
        then have "k \<in> set ks" unfolding assms(1) by blast
        with Some show ?thesis by (simp add: map_of_keys h_def)
      qed
    qed
    ultimately show ?thesis using assms(2) by (simp add: comp_def)
  qed
  ultimately show ?thesis by (simp add: reads_structs_def)
qed

lemma encode_reads: "encode v = Some b \<Longrightarrow> reads codec v b"
proof (induction v arbitrary: b)
  case (GInt i)
  then show ?case using encode_int_Some by simp
next
  case (GBytes x)
  then show ?case using dec_string_encode by simp
next
  case (GText s)
  then show ?case by (simp add: encode_text_Some)
next
  case (GBool v)
  from dec_bool_encode [OF this] show ?case by simp
next
  case (GArray vs)
  then have "encode_elements (map encode vs) = Some b" by simp
  then obtain g where g: "\<And>v. v \<in> set vs \<Longrightarrow> encode v = Some (g v)" "length vs < 2 ^ 64"
    "b = cb_head 4 (length vs) @ concat (map g vs)" by (rule encode_elements_Some) blast
  have "\<forall>v \<in> set vs. is_item (g v)" using g(1) encode_is_item by blast
  with g have raws: "dec_raws b = Inr (map g vs)" by (simp add: dec_raws_elements)
  have "list_all2 (\<lambda>p r. p r \<and> cb_raw codec r = Inr r) (map (reads codec) vs) (map g vs)"
  proof -
    have "reads codec v (g v) \<and> cb_raw codec (g v) = Inr (g v)" if "v \<in> set vs" for v
      using GArray.IH [OF that] g(1) [OF that] encode_raw by simp
    then show ?thesis by (simp add: list_all2_conv_all_nth)
  qed
  with raws codec_lists [OF g(1) raws] show ?case by auto
next
  case (GTextMap m)
  then have "encode_map encode_text (\<lambda>k. map_option encode (m k)) = Some b" by simp
  then obtain f ks where ks: "set ks = dom m" "distinct ks" "length ks < 2 ^ 64"
    and f: "\<And>k v. m k = Some v \<Longrightarrow> encode_text k = Some (fst (f k)) \<and> encode v = Some (snd (f k))"
    and b: "b = cb_head 5 (length ks) @ concat (map (\<lambda>(a, b). a @ b) (map f ks))"
    by (rule encode_map_Some) blast
  have members: "reads codec v (snd (f k)) \<and> cb_raw codec (snd (f k)) = Inr (snd (f k))"
    if "m k = Some v" for k v
    using f [OF that] GTextMap.IH [OF range_option [of m k v, OF that]] encode_raw by auto
  have items: "\<forall>k \<in> set ks. is_item (fst (f k)) \<and> is_item (snd (f k))"
    using f ks(1) encode_text_Some encode_is_item by blast
  have keys: "\<forall>k \<in> set ks. dec_text (fst (f k)) = Inr k" using f ks(1) encode_text_Some by blast
  have raw: "dec_map dec_text b = Inr (map_of (map (\<lambda>k. (k, snd (f k))) ks))"
    unfolding b by (rule dec_map_entries [OF ks(3) items keys])
  moreover have "carries codec (\<lambda>k. map_option (reads codec) (m k)) (map_of (map (\<lambda>k. (k, snd (f k))) ks))"
    using members ks(1) by (auto simp: carries_def map_of_keys split: option.split)
  moreover have "dec_entries dec_text dv b = Inr (map (\<lambda>k. (k, h k)) ks)"
    if "\<forall>k \<in> set ks. dv (snd (f k)) = Inr (h k)" for dv and h :: "string \<Rightarrow> bool"
    unfolding b by (rule dec_entries_map [OF ks(3) items]) (use keys that in blast)
  then have "reads_structs codec m b"
    using f by (intro codec_structs [OF ks(1,2) _ raw]) blast+
  ultimately show ?case by auto
next
  case (GIntMap m)
  then have "encode_map encode_int (\<lambda>k. map_option encode (m k)) = Some b" by simp
  then obtain f ks where ks: "set ks = dom m" "length ks < 2 ^ 64"
    and f: "\<And>k v. m k = Some v \<Longrightarrow> encode_int k = Some (fst (f k)) \<and> encode v = Some (snd (f k))"
    and b: "b = cb_head 5 (length ks) @ concat (map (\<lambda>(a, b). a @ b) (map f ks))"
    by (rule encode_map_Some) blast
  have members: "reads codec v (snd (f k)) \<and> cb_raw codec (snd (f k)) = Inr (snd (f k))"
    if "m k = Some v" for k v
    using f [OF that] GIntMap.IH [OF range_option [of m k v, OF that]] encode_raw by auto
  have items: "\<forall>k \<in> set ks. is_item (fst (f k)) \<and> is_item (snd (f k))"
    using f ks(1) encode_int_Some encode_is_item by blast
  have i64: "\<exists>raw. dec_map dec_int b = Inr raw \<and> carries codec (\<lambda>k. map_option (reads codec) (m k)) raw"
    if "\<forall>k \<in> dom m. int64 k"
  proof -
    have "\<forall>k \<in> set ks. dec_int (fst (f k)) = Inr k" using that f ks(1) encode_int_Some by blast
    from dec_map_entries [OF ks(2) items this]
    have "dec_map dec_int b = Inr (map_of (map (\<lambda>k. (k, snd (f k))) ks))" unfolding b .
    moreover have "carries codec (\<lambda>k. map_option (reads codec) (m k)) (map_of (map (\<lambda>k. (k, snd (f k))) ks))"
      using members ks(1) by (auto simp: carries_def map_of_keys split: option.split)
    ultimately show ?thesis by blast
  qed
  have u64: "\<exists>raw. dec_map dec_uint b = Inr raw \<and>
      carries codec (\<lambda>k. map_option (reads codec) (m (uint k))) raw"
    if small: "\<forall>k \<in> dom m. 0 \<le> k \<and> k < 2 ^ 64"
  proof -
    have "\<forall>k \<in> set ks. dec_uint (fst (f k)) = Inr (of_int k)" using small f ks(1) encode_int_Some by blast
    from dec_map_entries [OF ks(2) items this]
    have "dec_map dec_uint b = Inr (map_of (map (\<lambda>k. (of_int k, snd (f k))) ks))" unfolding b .
    moreover have range: "\<forall>k \<in> set ks. 0 \<le> k \<and> k < 2 ^ 64" using small ks(1) by blast
    have "carries codec (\<lambda>k. map_option (reads codec) (m (uint k)))
        (map_of (map (\<lambda>k. (of_int k :: u64, snd (f k))) ks))"
      using members ks(1) by (auto simp: carries_def map_of_word_keys [OF range] split: option.split)
    ultimately show ?thesis by blast
  qed
  show ?case using i64 u64 by (simp add: Let_def dom_def)
qed

lemma encode_decode: "encode v = Some b \<Longrightarrow> cb_decode codec b = Inr (b, length b)"
  using split_item_append [of b "[]"] encode_is_item [of v b] by (simp add: codec_def)

lemma codec_interoperates: "interoperate codec codec"
  by (auto simp: interoperate_def encode_decode split: option.splits intro: encode_reads)

lemma read_head_prefix:
  "read_head b = Some (major, v, r) \<Longrightarrow>
     \<exists>h. b = h @ r \<and> h \<noteq> [] \<and> (\<forall>rest. read_head (h @ rest) = Some (major, v, rest))"
proof (cases b)
  case (Cons x xs)
  let ?k = "2 ^ (unat x mod 32 - 24) :: nat"
  assume head: "read_head b = Some (major, v, r)"
  show ?thesis
  proof (cases "unat x mod 32 < 24")
    case True
    with head Cons show ?thesis by (intro exI [of _ "[x]"]) (auto simp: Let_def)
  next
    case False
    with head Cons show ?thesis
      by (intro exI [of _ "x # take ?k xs"]) (auto simp: Let_def split: if_splits)
  qed
qed simp

lemma skip_items_prefix:
  "skip_items n b = Some r \<Longrightarrow> \<exists>p. b = p @ r \<and> (0 < n \<longrightarrow> p \<noteq> []) \<and> (\<forall>rest. skip_items n (p @ rest) = Some rest)"
proof (induction n b rule: skip_items.induct)
  case (1 n b)
  show ?case
  proof (cases "n = 0")
    case True
    with 1(6) show ?thesis by (intro exI [of _ "[]"]) simp
  next
    case False
    with 1(6) obtain major v r0 where head: "read_head b = Some (major, v, r0)"
      by (auto simp: skip_items.simps [of n b] split: option.splits)
    from read_head_prefix [OF head] obtain h where h: "b = h @ r0" "h \<noteq> []"
      "\<And>rest. read_head (h @ rest) = Some (major, v, rest)" by blast
    show ?thesis
    proof (cases "major \<in> {2, 3}")
      case True
      with 1(6) False head have "v \<le> length r0" "skip_items (n - 1) (drop v r0) = Some r"
        by (auto simp: skip_items.simps [of n b] split: if_splits)
      with 1(2) [OF False head refl refl] True obtain p where "drop v r0 = p @ r"
        "\<forall>rest. skip_items (n - 1) (p @ rest) = Some rest" by auto
      moreover from this have "r0 = take v r0 @ p @ r" by (metis append_take_drop_id)
      ultimately show ?thesis using h False True \<open>v \<le> length r0\<close>
        by (intro exI [of _ "h @ take v r0 @ p"]) (auto simp: skip_items.simps [of n])
    next
      case False2: False
      define n' where "n' = (if major \<in> {0, 1, 7} then n - 1 else if major = 4 then v + (n - 1)
        else if major = 5 then 2 * v + (n - 1) else n)"
      have step: "skip_items n (h @ rest) = skip_items n' rest" for rest
        using False False2 h(3) by (auto simp: skip_items.simps [of n] n'_def)
      with 1(6) h have "skip_items n' r0 = Some r" by simp
      moreover have "skip_items n' r0 = Some r \<Longrightarrow> \<exists>p. r0 = p @ r \<and>
          (0 < n' \<longrightarrow> p \<noteq> []) \<and> (\<forall>rest. skip_items n' (p @ rest) = Some rest)"
        using 1(1,3,4,5) False head False2 by (auto simp: n'_def)
      ultimately obtain p where "r0 = p @ r" "\<forall>rest. skip_items n' (p @ rest) = Some rest" by blast
      then show ?thesis using h step by (intro exI [of _ "h @ p"]) auto
    qed
  qed
qed

lemma codec_documented: "cbor_documented codec"
proof -
  have "0 < n \<and> n \<le> length b \<and> (\<forall>rest. cb_decode codec (take n b @ rest) = Inr (raw, n))"
    if "cb_decode codec b = Inr (raw, n)" for b raw n
  proof -
    from that obtain r where r: "skip_items 1 b = Some r" "raw = take (length b - length r) b" "n = length raw"
      by (auto simp: codec_def split_item_def split: option.splits)
    from skip_items_prefix [OF r(1)] obtain p where p: "b = p @ r" "p \<noteq> []"
      "\<forall>rest. skip_items 1 (p @ rest) = Some rest" by auto
    with r show ?thesis by (simp add: codec_def split_item_def)
  qed
  then show ?thesis unfolding cbor_documented_def by blast
qed

lemma length_cb_head: "length (cb_head major n) \<le> 9"
  by (simp add: cb_head_def Let_def)

lemma encode_int_ok: "- (2 ^ 63) \<le> i \<Longrightarrow> i < 2 ^ 64 \<Longrightarrow> \<exists>b. encode_int i = Some b \<and> length b \<le> 9"
  using length_cb_head [of 0 "nat i"] length_cb_head [of 1 "nat (-1 - i)"] by (auto simp: encode_int_def)

lemma encode_text_ok: "length s < 2 ^ 64 \<Longrightarrow> \<exists>b. encode_text s = Some b \<and> length b \<le> 9 + length s"
  using length_cb_head [of 3 "length s"] by (auto simp: encode_text_def)

lemma encode_elements_ok:
  assumes "length vs < 2 ^ 64" and "\<forall>v \<in> set vs. \<exists>b. f v = Some b \<and> length b \<le> n v"
  shows "\<exists>b. encode_elements (map f vs) = Some b \<and> length b \<le> 9 + sum_list (map n vs)"
proof -
  have "\<exists>bs. those (map f vs) = Some bs \<and> length bs = length vs \<and> length (concat bs) \<le> sum_list (map n vs)"
    using assms(2)
  proof (induction vs)
    case (Cons v vs)
    then obtain b bs where "f v = Some b" "length b \<le> n v" "those (map f vs) = Some bs"
      "length bs = length vs" "length (concat bs) \<le> sum_list (map n vs)" by auto
    then show ?case by (intro exI [of _ "b # bs"]) auto
  qed simp
  then show ?thesis using assms(1) length_cb_head [of 4 "length vs"] by (auto simp: encode_elements_def)
qed

lemma encode_map_ok:
  assumes "finite (dom m)" and "card (dom m) < 2 ^ 64"
    and "\<forall>k \<in> dom m. \<exists>a. enc k = Some a \<and> length a \<le> l k"
    and "\<forall>k \<in> dom m. \<exists>b. encode (the (m k)) = Some b \<and> length b \<le> n k"
  shows "\<exists>b. encode_map enc (\<lambda>k. map_option encode (m k)) = Some b \<and> length b \<le> 9 + (\<Sum>k \<in> dom m. l k + n k)"
proof -
  define e where "e = (\<lambda>k. map_option encode (m k))"
  define ks where "ks = sorted_list_of_set (dom e)"
  have dom: "dom e = dom m" by (auto simp: e_def)
  have ks: "set ks = dom m" "distinct ks" "length ks = card (dom m)"
    using assms(1) by (auto simp: ks_def dom)
  have entry: "\<exists>a b. encode_entry enc (k, e k) = Some (a, b) \<and> length a + length b \<le> l k + n k"
    if "k \<in> dom m" for k
  proof -
    from that assms(3,4) obtain a b where "enc k = Some a" "length a \<le> l k"
      "encode (the (m k)) = Some b" "length b \<le> n k" by blast
    moreover from that have "e k = Some (encode (the (m k)))" by (auto simp: e_def)
    ultimately show ?thesis by auto
  qed
  have "set ks \<subseteq> dom m \<Longrightarrow> \<exists>ps. those (map (encode_entry enc) (map (\<lambda>k. (k, e k)) ks)) = Some ps \<and>
      length ps = length ks \<and> length (concat (map (\<lambda>(a, b). a @ b) ps)) \<le> (\<Sum>k\<leftarrow>ks. l k + n k)" for ks
  proof (induction ks)
    case (Cons k ks)
    then obtain ps where "those (map (encode_entry enc) (map (\<lambda>k. (k, e k)) ks)) = Some ps" "length ps = length ks"
      "length (concat (map (\<lambda>(a, b). a @ b) ps)) \<le> (\<Sum>k\<leftarrow>ks. l k + n k)" by auto
    moreover from Cons.prems entry [of k] obtain a b where "encode_entry enc (k, e k) = Some (a, b)"
      "length a + length b \<le> l k + n k" by auto
    ultimately show ?case by (intro exI [of _ "(a, b) # ps"]) auto
  qed simp
  with ks obtain ps where ps: "those (map (encode_entry enc) (map (\<lambda>k. (k, e k)) ks)) = Some ps"
    "length ps = length ks" "length (concat (map (\<lambda>(a, b). a @ b) ps)) \<le> (\<Sum>k\<leftarrow>ks. l k + n k)" by blast
  moreover have "(\<Sum>k\<leftarrow>ks. l k + n k) = (\<Sum>k \<in> dom m. l k + n k)"
    using ks sum_list_distinct_conv_sum_set [of ks "\<lambda>k. l k + n k"] by simp
  ultimately have "\<exists>b. encode_entries enc (map (\<lambda>k. (k, e k)) ks) = Some b \<and> length b \<le> 9 + (\<Sum>k \<in> dom m. l k + n k)"
    using assms(2) ks(3) length_cb_head [of 5 "length ks"] by (simp add: encode_entries_def)
  then show ?thesis
    using assms(1) by (simp add: encode_map_def e_def [symmetric] ks_def dom)
qed

lemma encode_compact: "encodable v \<Longrightarrow> \<exists>b. encode v = Some b \<and> length b \<le> weight v"
proof (induction v)
  case (GInt i)
  then show ?case using encode_int_ok by simp
next
  case (GBytes x)
  then show ?case using length_cb_head [of 2 "length x"] by simp
next
  case (GText s)
  then show ?case using encode_text_ok by simp
next
  case (GArray vs)
  then show ?case using encode_elements_ok [of vs encode weight] by simp
next
  case (GTextMap m)
  have "\<exists>b. encode (the (m k)) = Some b \<and> length b \<le> weight (the (m k))" if "k \<in> dom m" for k
  proof -
    from that obtain v where v: "m k = Some v" by auto
    moreover from v GTextMap.prems have "encodable v" unfolding encodable_map by (metis domI option.sel)
    ultimately show ?thesis using GTextMap.IH [OF range_option [of m k v, OF v]] by simp
  qed
  then show ?case
    using GTextMap.prems encode_map_ok [of m encode_text "\<lambda>k. 9 + length k" "\<lambda>k. weight (the (m k))"]
    unfolding encodable_map weight_map by (simp add: encode_text_ok)
next
  case (GIntMap m)
  have "\<exists>b. encode (the (m k)) = Some b \<and> length b \<le> weight (the (m k))" if "k \<in> dom m" for k
  proof -
    from that obtain v where v: "m k = Some v" by auto
    moreover from v GIntMap.prems have "encodable v" unfolding encodable_map by (metis domI option.sel)
    ultimately show ?thesis using GIntMap.IH [OF range_option [of m k v, OF v]] by simp
  qed
  then show ?case
    using GIntMap.prems encode_map_ok [of m encode_int "\<lambda>k. 9" "\<lambda>k. weight (the (m k))"]
    unfolding encodable_map weight_map by (simp add: encode_int_ok)
qed auto

lemma encode_nonempty: "encode v = Some b \<Longrightarrow> b \<noteq> []"
  using is_item_skip [of "[]" 0 "[]"] by (auto dest: encode_is_item simp: skip_items.simps [of "Suc 0"])

lemma codec_compact: "compact codec"
  unfolding compact_def using encode_compact encode_nonempty by fastforce

end
