(* ===== verification/Exchange.thy ===== *)
theory Exchange
  imports Peer Codec
begin

text \<open>
  What the authenticators of the tests share: reading a request and writing a reply with a CBOR
  library of their own, giving up where the test does.  The lemmas say what a request of the
  program's is on the other side of the wire, and what a reply is on this one, under an assumption
  about the two libraries, \<open>libraries\<close>, that \<open>codec\<close> satisfies.
\<close>

section \<open>An authenticator's use of its library\<close>

text \<open>\<open>if err != nil \{ a.t.Fatalf(\<dots>) \}\<close>: the test gives up and nothing is answered.\<close>

definition must :: "('x + 'b) \<Rightarrow> 'a \<Rightarrow> ('b \<Rightarrow> bytes option \<times> 'a) \<Rightarrow> bytes option \<times> 'a" where
  "must m a f = (case m of Inl _ \<Rightarrow> (None, a) | Inr x \<Rightarrow> f x)"

text \<open>\<open>cbor.Unmarshal(req[key], &v)\<close>, which fails on the absent member's nil, and \<open>b, _ := cbor.Marshal\<close>.\<close>

definition unmarshal :: "(bytes \<Rightarrow> ext_error + 'b) \<Rightarrow> bytes option \<Rightarrow> ext_error + 'b" where
  "unmarshal dec m = (case m of None \<Rightarrow> Inl ''EOF'' | Some b \<Rightarrow> dec b)"

definition marshal :: "cbor \<Rightarrow> gval \<Rightarrow> bytes" where
  "marshal A v = (case cb_marshal A v of Inl _ \<Rightarrow> [] | Inr b \<Rightarrow> b)"

lemma must_simps [simp]:
  "must (Inr x) a f = f x" "must (Inl e) a f = (None, a)"
  by (simp_all add: must_def)

lemma unmarshal_Some [simp]: "unmarshal dec (Some b) = dec b"
  by (simp add: unmarshal_def)

section \<open>Two libraries\<close>

text \<open>
  Each reads what the other writes, and writes it compactly.  A value \<open>fits\<close> when a library can
  write it, in a message of the framing and within the depth a decoder allows.
\<close>

definition libraries :: "cbor \<Rightarrow> cbor \<Rightarrow> bool" where
  "libraries P A \<longleftrightarrow> interoperate P A \<and> interoperate A P \<and> compact P \<and> compact A"

definition fits :: "gval \<Rightarrow> bool" where
  "fits v \<longleftrightarrow> encodable v \<and> weight v < MaxMessage \<and> nests v 32"

lemma libraries_sym: "libraries P A \<Longrightarrow> libraries A P"
  by (auto simp: libraries_def)

lemma libraries_codec: "libraries codec codec"
  by (simp add: libraries_def codec_interoperates codec_compact)

text \<open>A value written by one library and read by the other.\<close>

lemma marshal_ok:
  assumes "libraries P A" and "fits v"
  obtains b where "cb_marshal A v = Inr b" and "marshal A v = b" and "reads P v b" and "b \<noteq> []"
    and "length b < MaxMessage"
proof -
  from assms obtain b where b: "cb_marshal A v = Inr b" "b \<noteq> []" "length b \<le> weight v"
    unfolding libraries_def compact_def fits_def by blast
  with assms(2) have len: "length b < MaxMessage" by (simp add: fits_def)
  then have "length b < 2 ^ 16" by (simp add: wire_simps)
  with assms b(1) have "reads P v b" unfolding libraries_def interoperate_def fits_def by blast
  with b(1,2) len show ?thesis by (intro that [of b]) (simp_all add: marshal_def)
qed

lemma marshal_item:
  assumes "libraries P A" and "fits v"
  shows "cb_decode P (marshal A v) = Inr (marshal A v, length (marshal A v))"
proof -
  obtain b where b: "cb_marshal A v = Inr b" "marshal A v = b" "length b < MaxMessage"
    using marshal_ok [OF assms] by blast
  then have "length b < 2 ^ 16" by (simp add: wire_simps)
  with assms b(1) have "cb_decode P b = Inr (b, length b)"
    unfolding libraries_def interoperate_def fits_def by blast
  with b(2) show ?thesis by simp
qed

text \<open>A command with a request that fits is one call of the authenticator with what it reads.\<close>

lemma cborCall_calls:
  assumes "plugged_in nonce ch caps reply k f" and "libraries P A" and "fits (GIntMap m)"
  obtains b f' where "reads A (GIntMap m) b" and "length b < MaxMessage"
    and "cborCall P k cmd m f = Some (fst (call reply cmd b (f_auth f)), f')"
    and "plugged_in nonce ch caps reply k f'" and "f_auth f' = snd (call reply cmd b (f_auth f))"
proof -
  obtain b where b: "cb_marshal P (GIntMap m) = Inr b" "reads A (GIntMap m) b" "length b < MaxMessage"
    using marshal_ok [OF libraries_sym [OF assms(2)] assms(3)] by blast
  obtain f' where "CBOR k cmd b f = Some (fst (call reply cmd b (f_auth f)), f')"
    "plugged_in nonce ch caps reply k f'" "f_auth f' = snd (call reply cmd b (f_auth f))"
    by (rule CBOR_calls [OF assms(1)])
  then show ?thesis using b by (intro that) (simp_all add: cborCall_def)
qed

section \<open>Reading\<close>

text \<open>A map read as it was written, member by member.\<close>

lemma carries_None: "carries C m raw \<Longrightarrow> m k = None \<Longrightarrow> raw k = None"
  unfolding carries_def by (drule spec [of _ k]) simp

lemma carries_Some:
  assumes "carries C m raw" and "m k = Some p"
  shows "\<exists>r. raw k = Some r \<and> p r \<and> cb_raw C r = Inr r"
proof -
  from assms(1) have "case m k of None \<Rightarrow> raw k = None
     | Some p \<Rightarrow> (\<exists>r. raw k = Some r \<and> p r \<and> cb_raw C r = Inr r)" unfolding carries_def ..
  with assms(2) show ?thesis by simp
qed

lemma reads_u64:
  assumes "reads C (GIntMap m) b" and "\<forall>k \<in> dom m. 0 \<le> k \<and> k < 2 ^ 64"
  obtains raw where "cb_map_u64 C b = Inr raw"
    and "\<And>k v. m (uint k) = Some v \<Longrightarrow> \<exists>r. raw k = Some r \<and> reads C v r \<and> cb_raw C r = Inr r"
proof -
  from assms obtain raw where "cb_map_u64 C b = Inr raw"
    "carries C (\<lambda>k. map_option (reads C) (m (uint k))) raw"
    by (auto simp: Let_def dom_def)
  then show ?thesis using carries_Some by (intro that [of raw]) fastforce+
qed

lemma reads_u64_absent:
  assumes "reads C (GIntMap m) b" and "\<forall>k \<in> dom m. 0 \<le> k \<and> k < 2 ^ 64"
    and "cb_map_u64 C b = Inr raw" and "m (uint k) = None"
  shows "raw k = None"
proof -
  from assms(1-3) have "carries C (\<lambda>k. map_option (reads C) (m (uint k))) raw"
    by (auto simp: Let_def dom_def)
  from carries_None [OF this, of k] assms(4) show ?thesis by simp
qed

lemma reads_i64:
  assumes "reads C (GIntMap m) b" and "\<forall>k \<in> dom m. int64 k"
  obtains raw where "cb_map_i64 C b = Inr raw"
    and "\<And>k v. m k = Some v \<Longrightarrow> \<exists>r. raw k = Some r \<and> reads C v r"
proof -
  from assms obtain raw where "cb_map_i64 C b = Inr raw" "carries C (\<lambda>k. map_option (reads C) (m k)) raw"
    by (auto simp: Let_def dom_def)
  then show ?thesis using carries_Some by (intro that [of raw]) fastforce+
qed

lemma reads_text_map:
  assumes "reads C (GTextMap m) b" and "\<forall>k \<in> dom m. ascii k"
  obtains raw where "cb_map_text C b = Inr raw"
    and "\<And>k v. m k = Some v \<Longrightarrow> \<exists>r. raw k = Some r \<and> reads C v r"
proof -
  from assms obtain raw where "cb_map_text C b = Inr raw" "carries C (\<lambda>k. map_option (reads C) (m k)) raw"
    by (auto simp: Let_def)
  then show ?thesis using carries_Some by (intro that [of raw]) fastforce+
qed

lemma reads_text_map_absent:
  assumes "reads C (GTextMap m) b" and "\<forall>k \<in> dom m. ascii k"
    and "cb_map_text C b = Inr raw" and "m k = None"
  shows "raw k = None"
proof -
  from assms(1-3) have "carries C (\<lambda>k. map_option (reads C) (m k)) raw" by (auto simp: Let_def)
  from carries_None [OF this, of k] assms(4) show ?thesis by simp
qed

lemma reads_members:
  "reads C (GInt i) b \<Longrightarrow> int64 i \<Longrightarrow> cb_int C b = Inr i" "reads C (GBool v) b \<Longrightarrow> cb_bool C b = Inr v"
  "reads C (GBytes x) b \<Longrightarrow> cb_bytes C b = Inr x" "reads C (GText s) b \<Longrightarrow> ascii s \<Longrightarrow> cb_text C b = Inr s"
  by simp_all

end
