(* ===== verification/PinPeer.thy ===== *)
theory PinPeer
  imports Exchange ClientPin
begin

text \<open>
  \<open>pinAuthenticator\<close> of \<open>clientpin_test.go\<close>, which plays the authenticator's half of the PIN exchange
  with a key of its own, behind the fake key of \<open>Peer\<close>; and the exchange of a PIN for a token
  played to its end between it and the program.  What is assumed of the CBOR libraries of the two
  sides is \<open>libraries\<close>, of the randomness and the curve \<open>healthy\<close>; \<open>codec\<close> and \<open>fixed_seams\<close> satisfy
  them.
\<close>

section \<open>The authenticator\<close>

record 'e pin_auth =
  pa_priv :: ecdh_private
  pa_pin :: string
  pa_token :: bytes
  pa_retries :: int
  pa_asked :: "int list"
  pa_env :: 'e

definition retries_reply :: "cbor \<Rightarrow> 'e pin_auth \<Rightarrow> bytes" where
  "retries_reply A a = marshal A (GIntMap
     [uint cpRespPINRetries \<mapsto> GInt (pa_retries a), uint cpRespPowerCycle \<mapsto> GBool False])"

definition agreement_cose :: "'e pin_auth \<Rightarrow> int \<Rightarrow> gval option" where
  "agreement_cose a = (let pub = pub_Bytes (priv_PublicKey (pa_priv a)) in
     [coseKty \<mapsto> GInt coseKtyEC2, coseAlg \<mapsto> GInt (-25), coseCrv \<mapsto> GInt coseCrvP256,
      coseX \<mapsto> GBytes (take 32 (drop 1 pub)), coseY \<mapsto> GBytes (drop 33 pub)])"

definition agreement_reply :: "cbor \<Rightarrow> 'e pin_auth \<Rightarrow> bytes" where
  "agreement_reply A a = marshal A (GIntMap [uint cpRespKeyAgreement \<mapsto> GIntMap (agreement_cose a)])"

definition token_reply ::
    "cbor \<Rightarrow> 'e seams \<Rightarrow> PINProtocol \<Rightarrow> (u64 \<Rightarrow> bytes option) \<Rightarrow> 'e pin_auth \<Rightarrow> bytes option \<times> 'e pin_auth" where
  "token_reply A S proto req a =
     must (unmarshal (cb_raw A) (req (of_int cpKeyAgreement))) a (\<lambda>cose.
     must (coseToECDH A cose) a (\<lambda>platform.
     must (priv_ECDH (pa_priv a) platform) a (\<lambda>secret.
     must (deriveKeys (sm_hkdfKey S) proto secret) a (\<lambda>keys.
     must (unmarshal (cb_bytes A) (req (of_int cpPinHashEnc))) a (\<lambda>hashEnc.
     must (decrypt keys hashEnc) a (\<lambda>got.
     let want = sha256 (bytes_of_string (pa_pin a)) in
     if got \<noteq> take 16 want then (Some [0x31], a\<lparr>pa_retries := pa_retries a - 1\<rparr>)
     else case encrypt S keys (pa_token a) (pa_env a) of
         None \<Rightarrow> (None, a)
       | Some (enc, e) \<Rightarrow> let a = a\<lparr>pa_env := e\<rparr> in
           must enc a (\<lambda>enc.
           (Some (StatusOK # marshal A (GIntMap [uint cpRespToken \<mapsto> GBytes enc])), a))))))))"

definition pin_reply ::
    "cbor \<Rightarrow> 'e seams \<Rightarrow> byte \<Rightarrow> bytes \<Rightarrow> 'e pin_auth \<Rightarrow> bytes option \<times> 'e pin_auth" where
  "pin_reply A S cmd params a =
     (if cmd \<noteq> CmdClientPIN then (Some [StatusOK], a)
      else
      must (cb_map_u64 A params) a (\<lambda>req.
      must (unmarshal (cb_int A) (req (of_int cpSubCommand))) a (\<lambda>sub.
      must (unmarshal (cb_int A) (req (of_int cpProtocol))) a (\<lambda>proto.
      let a = a\<lparr>pa_asked := pa_asked a @ [sub]\<rparr> in
      if sub = subGetPINRetries then (Some (StatusOK # retries_reply A a), a)
      else if sub = subGetKeyAgreement then (Some (StatusOK # agreement_reply A a), a)
      else if sub = subGetPINToken \<or> sub = subGetTokenUsingPIN then token_reply A S proto req a
      else (Some [0x01], a)))))"

text \<open>
  The tests' authenticator leaves its count alone when a PIN is right and never locks, where an
  authenticator as \<open>clientpin.go\<close> describes it restores the count and locks when it runs out.  How
  tries are counted is therefore a parameter of the peer here, a \<open>policy\<close>: what becomes of the count
  and with which status, if any, a try is refused; and at which counts the key asks to be unplugged.
\<close>

record policy =
  po_try :: "bool \<Rightarrow> int \<Rightarrow> byte option \<times> int"
  po_cycle :: "int \<Rightarrow> bool"

definition tests_policy :: policy where
  "tests_policy = \<lparr>po_try = (\<lambda>right n. if right then (None, n) else (Some 0x31, n - 1)), po_cycle = (\<lambda>n. False)\<rparr>"

definition described_policy :: "int \<Rightarrow> policy" where
  "described_policy full =
     \<lparr>po_try = (\<lambda>right n. if n \<le> 0 then (Some 0x34, n) else if right then (None, full) else (Some 0x31, n - 1)),
      po_cycle = (\<lambda>n. n \<le> 0)\<rparr>"

definition token_reply_by ::
    "policy \<Rightarrow> cbor \<Rightarrow> 'e seams \<Rightarrow> PINProtocol \<Rightarrow> (u64 \<Rightarrow> bytes option) \<Rightarrow> 'e pin_auth \<Rightarrow>
      bytes option \<times> 'e pin_auth" where
  "token_reply_by J A S proto req a =
     must (unmarshal (cb_raw A) (req (of_int cpKeyAgreement))) a (\<lambda>cose.
     must (coseToECDH A cose) a (\<lambda>platform.
     must (priv_ECDH (pa_priv a) platform) a (\<lambda>secret.
     must (deriveKeys (sm_hkdfKey S) proto secret) a (\<lambda>keys.
     must (unmarshal (cb_bytes A) (req (of_int cpPinHashEnc))) a (\<lambda>hashEnc.
     must (decrypt keys hashEnc) a (\<lambda>got.
     case po_try J (got = take 16 (sha256 (bytes_of_string (pa_pin a)))) (pa_retries a) of
       (Some status, n) \<Rightarrow> (Some [status], a\<lparr>pa_retries := n\<rparr>)
     | (None, n) \<Rightarrow> let a = a\<lparr>pa_retries := n\<rparr> in
         case encrypt S keys (pa_token a) (pa_env a) of
           None \<Rightarrow> (None, a)
         | Some (enc, e) \<Rightarrow> let a = a\<lparr>pa_env := e\<rparr> in
             must enc a (\<lambda>enc.
             (Some (StatusOK # marshal A (GIntMap [uint cpRespToken \<mapsto> GBytes enc])), a))))))))"

definition retries_reply_by :: "policy \<Rightarrow> cbor \<Rightarrow> 'e pin_auth \<Rightarrow> bytes" where
  "retries_reply_by J A a = marshal A (GIntMap
     [uint cpRespPINRetries \<mapsto> GInt (pa_retries a), uint cpRespPowerCycle \<mapsto> GBool (po_cycle J (pa_retries a))])"

text \<open>The part of the authenticator behind the subcommand, and the authenticator.\<close>

definition sub_reply ::
    "policy \<Rightarrow> cbor \<Rightarrow> 'e seams \<Rightarrow> int \<Rightarrow> PINProtocol \<Rightarrow> (u64 \<Rightarrow> bytes option) \<Rightarrow> 'e pin_auth \<Rightarrow>
      bytes option \<times> 'e pin_auth" where
  "sub_reply J A S sub proto req a =
     (if sub = 1 then (Some (StatusOK # retries_reply_by J A a), a)
      else if sub = 2 then (Some (StatusOK # agreement_reply A a), a)
      else if sub = 5 \<or> sub = 9 then token_reply_by J A S proto req a
      else (Some [0x01], a))"

definition pin_reply_by ::
    "policy \<Rightarrow> cbor \<Rightarrow> 'e seams \<Rightarrow> byte \<Rightarrow> bytes \<Rightarrow> 'e pin_auth \<Rightarrow> bytes option \<times> 'e pin_auth" where
  "pin_reply_by J A S cmd params a =
     (if cmd \<noteq> CmdClientPIN then (Some [StatusOK], a)
      else
      must (cb_map_u64 A params) a (\<lambda>req.
      must (unmarshal (cb_int A) (req (of_int cpSubCommand))) a (\<lambda>sub.
      must (unmarshal (cb_int A) (req (of_int cpProtocol))) a (\<lambda>proto.
      sub_reply J A S sub proto req (a\<lparr>pa_asked := pa_asked a @ [sub]\<rparr>)))))"

lemma must_cong: "(\<And>x. f x = g x) \<Longrightarrow> must m a f = must m a g"
  by (rule arg_cong [of f g "must m a"]) (rule ext)

lemma token_reply_tests: "token_reply A S proto req a = token_reply_by tests_policy A S proto req a"
  unfolding token_reply_def token_reply_by_def
  by (intro must_cong) (auto simp: tests_policy_def Let_def split: option.split prod.split)

lemma retries_reply_tests: "retries_reply A a = retries_reply_by tests_policy A a"
  by (simp add: retries_reply_def retries_reply_by_def tests_policy_def)

lemma pin_reply_tests: "pin_reply A S = pin_reply_by tests_policy A S"
proof (intro ext)
  fix cmd params and a :: "'a pin_auth"
  show "pin_reply A S cmd params a = pin_reply_by tests_policy A S cmd params a"
    unfolding pin_reply_def pin_reply_by_def
    by (intro if_cong refl must_cong) (auto simp: sub_reply_def cp_defs token_reply_tests retries_reply_tests Let_def)
qed

text \<open>
  The platform of the test lives in the same process: its randomness is the authenticator's.
\<close>

definition with_env :: "'e \<Rightarrow> 'e pin_auth fake \<Rightarrow> 'e pin_auth fake" where
  "with_env e f = f\<lparr>f_auth := (f_auth f)\<lparr>pa_env := e\<rparr>\<rparr>"

definition shared_seams :: "'e seams \<Rightarrow> 'e pin_auth fake seams" where
  "shared_seams S =
     \<lparr>sm_randRead = (\<lambda>n f. let (r, e) = sm_randRead S n (pa_env (f_auth f)) in (r, with_env e f)),
      sm_newECDHKey = (\<lambda>f. let (r, e) = sm_newECDHKey S (pa_env (f_auth f)) in (r, with_env e f)),
      sm_hkdfKey = sm_hkdfKey S\<rparr>"

section \<open>What is assumed\<close>

text \<open>
  Of the randomness: it never fails, the keys it generates are points of P-256 that agree with the
  authenticator's, and the HKDF is the one of RFC 5869.
\<close>

definition agreeing :: "ecdh_private \<Rightarrow> ecdh_private \<Rightarrow> bytes \<Rightarrow> bool" where
  "agreeing d a secret \<longleftrightarrow> NewPublicKey (pub_Bytes (priv_PublicKey d)) = Inr (priv_PublicKey d) \<and>
     NewPublicKey (pub_Bytes (priv_PublicKey a)) = Inr (priv_PublicKey a) \<and>
     priv_ECDH d (priv_PublicKey a) = Inr secret \<and> priv_ECDH a (priv_PublicKey d) = Inr secret"

definition healthy :: "'e seams \<Rightarrow> ecdh_private \<Rightarrow> bool" where
  "healthy S a \<longleftrightarrow> (\<forall>n e. \<exists>bs e1. sm_randRead S n e = (Inr bs, e1)) \<and>
     (\<forall>e. \<exists>d e1 secret. sm_newECDHKey S e = (Inr d, e1) \<and> agreeing d a secret) \<and>
     sm_hkdfKey S = hkdf_Key"

section \<open>Lemmas\<close>

lemma plugged_in_with_env [simp]:
  "plugged_in nonce ch caps reply k (with_env e f) = plugged_in nonce ch caps reply k f"
  by (simp add: plugged_in_def quiet_key_def with_env_def)

lemma with_env_simps [simp]:
  "f_auth (with_env e f) = (f_auth f)\<lparr>pa_env := e\<rparr>" "f_closed (with_env e f) = f_closed f"
  by (simp_all add: with_env_def)

text \<open>A point of the curve goes through COSE in either direction.\<close>

lemma coseToECDH_reads:
  assumes "reads C (GIntMap cose) b" and "\<forall>k \<in> dom cose. int64 k"
    and "cose (-2) = Some (GBytes (take 32 (drop 1 (pub_Bytes pub))))"
    and "cose (-3) = Some (GBytes (drop 33 (pub_Bytes pub)))"
    and "NewPublicKey (pub_Bytes pub) = Inr pub"
  shows "coseToECDH C b = Inr pub"
proof -
  obtain raw where raw: "cb_map_i64 C b = Inr raw"
    and members: "\<And>k v. cose k = Some v \<Longrightarrow> \<exists>r. raw k = Some r \<and> reads C v r"
    using reads_i64 [OF assms(1,2)] by blast
  from assms(5) obtain x y where xy: "length x = 32" "length y = 32" "pub_Bytes pub = 0x04 # x @ y"
    "IsOnCurve (int (SetBytes x)) (int (SetBytes y))" and pub: "pub = \<lparr>pub_curve = P256, pub_Bytes = pub_Bytes pub\<rparr>"
    by (auto simp: NewPublicKey_ok)
  have "has_member raw (-2) (cb_bytes C) x" "has_member raw (-3) (cb_bytes C) y"
    using members [OF assms(3)] members [OF assms(4)] xy by (auto simp: has_member_def)
  with raw xy pub show ?thesis
    by (auto simp: coseToECDH_eq_Inr)
qed


lemma response_keys:
  "uint cpRespKeyAgreement = 1" "uint cpRespToken = 2" "uint cpRespPINRetries = 3" "uint cpRespPowerCycle = 4"
  by (simp_all add: cp_defs)

section \<open>What the authenticator answers\<close>

lemma pin_reply_reads:
  assumes "reads A (GIntMap m) b" and "\<forall>k \<in> dom m. 0 \<le> k \<and> k < 2 ^ 64"
    and "m 1 = Some (GInt proto)" and "int64 proto" and "m 2 = Some (GInt sub)" and "int64 sub"
  obtains req where "pin_reply_by J A S CmdClientPIN b a =
      sub_reply J A S sub proto req (a\<lparr>pa_asked := pa_asked a @ [sub]\<rparr>)"
    and "\<And>k v. m (uint k) = Some v \<Longrightarrow> \<exists>r. req k = Some r \<and> reads A v r \<and> cb_raw A r = Inr r"
proof -
  obtain req where req: "cb_map_u64 A b = Inr req"
    and members: "\<And>k v. m (uint k) = Some v \<Longrightarrow> \<exists>r. req k = Some r \<and> reads A v r \<and> cb_raw A r = Inr r"
    using reads_u64 [OF assms(1,2)] by blast
  have "\<exists>r. req 1 = Some r \<and> cb_int A r = Inr proto" "\<exists>r. req 2 = Some r \<and> cb_int A r = Inr sub"
    using members [of 1 "GInt proto"] members [of 2 "GInt sub"] assms(3,5) reads_members(1) [OF _ assms(4)]
      reads_members(1) [OF _ assms(6)] by (simp_all del: reads.simps) blast+
  then have "pin_reply_by J A S CmdClientPIN b a = sub_reply J A S sub proto req (a\<lparr>pa_asked := pa_asked a @ [sub]\<rparr>)"
    using req by (auto simp: pin_reply_by_def cp_defs)
  then show ?thesis using members by (rule that)
qed

definition derived_keys :: "PINProtocol \<Rightarrow> bytes \<Rightarrow> pinKeys" where
  "derived_keys proto secret = (if proto = 1 then one_keys secret else two_keys secret)"

lemma derived_keys_simps:
  "usable (derived_keys proto secret)"
  "proto \<in> {1, 2} \<Longrightarrow> pk_proto (derived_keys proto secret) = proto"
  "proto \<in> {1, 2} \<Longrightarrow> deriveKeys hkdf_Key proto secret = Inr (derived_keys proto secret)"
  by (auto simp: derived_keys_def derived_usable deriveKeys_default)

lemma encrypt_works:
  assumes "\<forall>n w. \<exists>bs w1. sm_randRead S n w = (Inr bs, w1)" and "usable k"
    and "p \<noteq> []" and "16 dvd length p"
  obtains c w1 where "encrypt S k p w = Some (Inr c, w1)" and "length c \<le> length p + 16" and "decrypt k c = Inr p"
proof -
  obtain bs w1 where rand: "sm_randRead S 16 w = (Inr bs, w1)" using assms(1) by blast
  with assms(2-4) have "\<exists>c w1. encrypt S k p w = Some (Inr c, w1)"
    by (auto simp: encrypt_eq)
  then obtain c w1 where c: "encrypt S k p w = Some (Inr c, w1)" by blast
  with encrypt_Inr [OF this] show ?thesis by (intro that) auto
qed

text \<open>
  To a token request that carries the platform's key and a ciphertext: what the policy says, a
  status or the token under the keys both ends derive.
\<close>

lemma token_reply_answers:
  assumes "healthy S (pa_priv a)" and "agreeing d (pa_priv a) secret" and "proto \<in> {1, 2}"
    and "ecdhToCOSE (priv_PublicKey d) = Inr own"
    and "\<exists>r. req 3 = Some r \<and> reads A (GIntMap own) r \<and> cb_raw A r = Inr r"
    and "\<exists>r. req 6 = Some r \<and> reads A (GBytes hashEnc) r"
    and "decrypt (derived_keys proto secret) hashEnc = Inr half"
    and "po_try J (half = take 16 (sha256 (bytes_of_string (pa_pin a)))) (pa_retries a) = (v, n)"
  shows "case v of
      Some s \<Rightarrow> token_reply_by J A S proto req a = (Some [s], a\<lparr>pa_retries := n\<rparr>)
    | None \<Rightarrow> pa_token a \<noteq> [] \<and> 16 dvd length (pa_token a) \<longrightarrow>
        (\<exists>enc e. token_reply_by J A S proto req a =
           (Some (StatusOK # marshal A (GIntMap [2 \<mapsto> GBytes enc])), a\<lparr>pa_retries := n, pa_env := e\<rparr>) \<and>
           length enc \<le> length (pa_token a) + 16 \<and>
           decrypt (derived_keys proto secret) enc = Inr (pa_token a))"
proof -
  let ?keys = "derived_keys proto secret"
  obtain cose where cose: "req 3 = Some cose" "reads A (GIntMap own) cose" "cb_raw A cose = Inr cose"
    using assms(5) by blast
  obtain r where r: "req 6 = Some r" "cb_bytes A r = Inr hashEnc" using assms(6) by auto
  have point: "NewPublicKey (pub_Bytes (priv_PublicKey d)) = Inr (priv_PublicKey d)"
    and secret: "priv_ECDH (pa_priv a) (priv_PublicKey d) = Inr secret"
    using assms(2) by (auto simp: agreeing_def)
  from point obtain x y where xy: "length x = 32" "length y = 32" "pub_Bytes (priv_PublicKey d) = 0x04 # x @ y"
    by (auto simp: NewPublicKey_ok)
  with assms(4) have own: "own = [1 \<mapsto> GInt 2, 3 \<mapsto> GInt (-25), -1 \<mapsto> GInt 1, -2 \<mapsto> GBytes x, -3 \<mapsto> GBytes y]"
    by (simp add: ecdhToCOSE_eq)
  have "coseToECDH A cose = Inr (priv_PublicKey d)"
    using cose(2) point xy by (intro coseToECDH_reads [of A own]) (auto simp: own int64_def)
  moreover have "deriveKeys (sm_hkdfKey S) proto secret = Inr ?keys"
    using assms(1,3) by (simp add: healthy_def derived_keys_simps)
  ultimately have reply: "token_reply_by J A S proto req a = (case v of
        Some s \<Rightarrow> (Some [s], a\<lparr>pa_retries := n\<rparr>)
      | None \<Rightarrow> (case encrypt S ?keys (pa_token a) (pa_env a) of
           None \<Rightarrow> (None, a\<lparr>pa_retries := n\<rparr>)
         | Some (enc, e) \<Rightarrow> must enc (a\<lparr>pa_retries := n, pa_env := e\<rparr>) (\<lambda>enc.
             (Some (StatusOK # marshal A (GIntMap [2 \<mapsto> GBytes enc])), a\<lparr>pa_retries := n, pa_env := e\<rparr>))))"
    using cose(1,3) r secret assms(7,8) unfolding token_reply_by_def response_keys Let_def
    by (simp add: cp_defs split: option.split)
  show ?thesis
  proof (cases v)
    case (Some s)
    with reply show ?thesis by simp
  next
    case None
    have rand: "\<forall>n w. \<exists>bs w1. sm_randRead S n w = (Inr bs, w1)" using assms(1) by (auto simp: healthy_def)
    have "\<exists>enc e. token_reply_by J A S proto req a =
        (Some (StatusOK # marshal A (GIntMap [2 \<mapsto> GBytes enc])), a\<lparr>pa_retries := n, pa_env := e\<rparr>) \<and>
        length enc \<le> length (pa_token a) + 16 \<and> decrypt ?keys enc = Inr (pa_token a)"
      if "pa_token a \<noteq> [] \<and> 16 dvd length (pa_token a)"
    proof -
      from that obtain enc e where "encrypt S ?keys (pa_token a) (pa_env a) = Some (Inr enc, e)"
        "length enc \<le> length (pa_token a) + 16" "decrypt ?keys enc = Inr (pa_token a)"
        using encrypt_works [OF rand derived_keys_simps(1), of "pa_token a" proto secret "pa_env a"] by blast
      with None reply show ?thesis by (intro exI [of _ enc] exI [of _ e]) simp
    qed
    with None show ?thesis by simp
  qed
qed


section \<open>The operations against it\<close>

definition platform ::
    "cbor \<Rightarrow> cbor \<Rightarrow> 'e seams \<Rightarrow> 'e pin_auth fake key \<Rightarrow> 'e pin_auth fake \<Rightarrow> bool" where
  "platform P A S k f \<longleftrightarrow> libraries P A \<and> healthy S (pa_priv (f_auth f)) \<and> bit (k_caps k) 2 \<and>
     (\<exists>nonce. plugged_in nonce (k_channel k) (k_caps k) (pin_reply A S) k f)"

definition platform_by ::
    "policy \<Rightarrow> cbor \<Rightarrow> cbor \<Rightarrow> 'e seams \<Rightarrow> 'e pin_auth fake key \<Rightarrow> 'e pin_auth fake \<Rightarrow> bool" where
  "platform_by J P A S k f \<longleftrightarrow> libraries P A \<and> healthy S (pa_priv (f_auth f)) \<and> bit (k_caps k) 2 \<and>
     (\<exists>nonce. plugged_in nonce (k_channel k) (k_caps k) (pin_reply_by J A S) k f)"

lemma platform_tests: "platform P A S k f = platform_by tests_policy P A S k f"
  by (simp add: platform_def platform_by_def pin_reply_tests)

lemma platform_with_env [simp]: "platform_by J P A S k (with_env e f) = platform_by J P A S k f"
  by (simp add: platform_by_def)

lemma platform_open: "platform_by J P A S k f \<Longrightarrow> bit (k_caps k) 2 \<and> (\<exists>T. k_t k = Some T)"
  by (auto simp: platform_by_def plugged_in_def)

lemma platform_ready: "platform_by J P A S k f \<Longrightarrow> bindIO (ctap2Ready k) g w = g () w"
  using platform_open [of J P A S k f] ready [of k] by auto

text \<open>A command of the platform and the authenticator's answer to it.\<close>

lemma platform_cborCall:
  assumes "platform_by J P A S k f" and "fits (GIntMap m)"
    and "\<forall>k \<in> dom m. 0 \<le> k \<and> k < 2 ^ 64"
    and "m 1 = Some (GInt proto)" and "int64 proto" and "m 2 = Some (GInt sub)" and "int64 sub"
  obtains req out a f' where
    "sub_reply J A S sub proto req ((f_auth f)\<lparr>pa_asked := pa_asked (f_auth f) @ [sub]\<rparr>) = (out, a)"
    and "\<And>k v. m (uint k) = Some v \<Longrightarrow> \<exists>r. req k = Some r \<and> reads A v r \<and> cb_raw A r = Inr r"
    and "f_auth f' = a"
    and "pa_priv a = pa_priv (f_auth f) \<Longrightarrow> platform_by J P A S k f'"
    and "\<And>s body. out = Some (s # body) \<Longrightarrow> length body < MaxMessage \<Longrightarrow>
      cborCall P k CmdClientPIN m f =
        Some (if s = 0 then Inr body else Inl (Ctap2 (StatusRefusal ''Test Key'' s)), f')"
proof -
  from assms(1) obtain nonce where libs: "libraries P A" and healthy: "healthy S (pa_priv (f_auth f))"
    and caps: "bit (k_caps k) 2"
    and plug: "plugged_in nonce (k_channel k) (k_caps k) (pin_reply_by J A S) k f"
    by (auto simp: platform_by_def)
  obtain b f' where b: "reads A (GIntMap m) b" "length b < MaxMessage"
    and run: "cborCall P k CmdClientPIN m f = Some (fst (call (pin_reply_by J A S) CmdClientPIN b (f_auth f)), f')"
    and f': "plugged_in nonce (k_channel k) (k_caps k) (pin_reply_by J A S) k f'"
      "f_auth f' = snd (call (pin_reply_by J A S) CmdClientPIN b (f_auth f))"
    by (rule cborCall_calls [OF plug libs assms(2)])
  obtain req where reply: "pin_reply_by J A S CmdClientPIN b (f_auth f) =
      sub_reply J A S sub proto req ((f_auth f)\<lparr>pa_asked := pa_asked (f_auth f) @ [sub]\<rparr>)"
    and members: "\<And>k v. m (uint k) = Some v \<Longrightarrow> \<exists>r. req k = Some r \<and> reads A v r \<and> cb_raw A r = Inr r"
    by (rule pin_reply_reads [OF b(1) assms(3-7), of J S "f_auth f"]) blast
  obtain out a where out: "sub_reply J A S sub proto req ((f_auth f)\<lparr>pa_asked := pa_asked (f_auth f) @ [sub]\<rparr>) = (out, a)"
    by fastforce
  have a: "f_auth f' = a" using f'(2) reply out b(2) by (simp add: call_def)
  show ?thesis
  proof (rule that [OF out members a])
    assume "pa_priv a = pa_priv (f_auth f)"
    then show "platform_by J P A S k f'" using libs healthy caps f'(1) a by (auto simp: platform_by_def)
  next
    fix s body
    assume "out = Some (s # body)" and "length body < MaxMessage"
    with run reply out b(2) show "cborCall P k CmdClientPIN m f =
        Some (if s = 0 then Inr body else Inl (Ctap2 (StatusRefusal ''Test Key'' s)), f')"
      by (simp add: call_def StatusOK_def)
  qed
qed

text \<open>The count of tries.\<close>

lemma PINRetries_platform:
  assumes "platform_by J P A S k f" and "int64 (pa_retries (f_auth f))"
  obtains f' where "PINRetries P k f =
      Some (Inr \<lparr>rt_PIN = pa_retries (f_auth f), rt_PowerCycle = po_cycle J (pa_retries (f_auth f))\<rparr>, f')"
    and "platform_by J P A S k f'" and "f_auth f' = (f_auth f)\<lparr>pa_asked := pa_asked (f_auth f) @ [1]\<rparr>"
proof -
  let ?m = "[1 \<mapsto> GInt 1, 2 \<mapsto> GInt 1]"
  let ?a = "(f_auth f)\<lparr>pa_asked := pa_asked (f_auth f) @ [1]\<rparr>"
  let ?r = "[3 \<mapsto> GInt (pa_retries ?a), 4 \<mapsto> GBool (po_cycle J (pa_retries ?a))]"
  have libs: "libraries P A" using assms(1) by (simp add: platform_by_def)
  have m: "fits (GIntMap ?m)"
    unfolding fits_def measure_map by (simp_all add: wire_simps)
  have r: "fits (GIntMap ?r)"
    unfolding fits_def measure_map using assms(2) by (simp_all add: wire_simps int64_def)
  obtain body where body: "marshal A (GIntMap ?r) = body" "reads P (GIntMap ?r) body" "length body < MaxMessage"
    by (rule marshal_ok [OF libs r]) blast
  obtain req out a f' where reply: "sub_reply J A S 1 1 req ?a = (out, a)" and a: "f_auth f' = a"
    and still: "pa_priv a = pa_priv (f_auth f) \<Longrightarrow> platform_by J P A S k f'"
    and run: "\<And>s body. out = Some (s # body) \<Longrightarrow> length body < MaxMessage \<Longrightarrow>
      cborCall P k CmdClientPIN ?m f =
        Some (if s = 0 then Inr body else Inl (Ctap2 (StatusRefusal ''Test Key'' s)), f')"
    by (rule platform_cborCall [OF assms(1) m, of 1 1]) (auto simp: int64_def)
  have "out = Some (0 # body)" "a = ?a"
    using reply body(1) by (auto simp: sub_reply_def retries_reply_by_def response_keys StatusOK_def)
  obtain raw where "cb_map_u64 P body = Inr raw"
    and "\<And>k v. ?r (uint k) = Some v \<Longrightarrow> \<exists>m. raw k = Some m \<and> reads P v m \<and> cb_raw P m = Inr m"
    by (rule reads_u64 [OF body(2)]) auto
  from this(1) this(2) [of 3] this(2) [of 4] assms(2)
  have "parse_retries P body = Inr \<lparr>rt_PIN = pa_retries (f_auth f), rt_PowerCycle = po_cycle J (pa_retries (f_auth f))\<rparr>"
    by (auto simp: parse_retries_eq_Inr member_is_def)
  then have "PINRetries P k f = Some (Inr \<lparr>rt_PIN = pa_retries (f_auth f), rt_PowerCycle = po_cycle J (pa_retries (f_auth f))\<rparr>, f')"
    using run [of 0 body] \<open>out = _\<close> body(3)
    by (simp add: PINRetries_def platform_ready [OF assms(1)] cp_defs protocol_defs)
  then show ?thesis using still a \<open>a = ?a\<close> by (intro that) auto
qed

text \<open>The key to agree with.\<close>

lemma KeyAgreement_platform:
  assumes "platform_by J P A S k f" and "proto \<in> {1, 2}"
  obtains f' where "KeyAgreement P k proto f = Some (Inr (priv_PublicKey (pa_priv (f_auth f))), f')"
    and "platform_by J P A S k f'" and "f_auth f' = (f_auth f)\<lparr>pa_asked := pa_asked (f_auth f) @ [2]\<rparr>"
proof -
  let ?m = "[1 \<mapsto> GInt proto, 2 \<mapsto> GInt 2]"
  let ?a = "(f_auth f)\<lparr>pa_asked := pa_asked (f_auth f) @ [2]\<rparr>"
  let ?pub = "priv_PublicKey (pa_priv (f_auth f))"
  let ?r = "[1 \<mapsto> GIntMap (agreement_cose ?a)]"
  have libs: "libraries P A" and healthy: "healthy S (pa_priv (f_auth f))"
    using assms(1) by (auto simp: platform_by_def)
  have point: "NewPublicKey (pub_Bytes ?pub) = Inr ?pub"
    using healthy unfolding healthy_def agreeing_def by blast
  then have len: "length (pub_Bytes ?pub) = 65" by (auto simp: NewPublicKey_ok)
  have m: "fits (GIntMap ?m)"
    unfolding fits_def measure_map using assms(2) by (auto simp add: wire_simps)
  have r: "fits (GIntMap ?r)"
    unfolding fits_def measure_map using len by (simp_all add: wire_simps agreement_cose_def cose_defs measure_map Let_def)
  obtain body where body: "marshal A (GIntMap ?r) = body" "reads P (GIntMap ?r) body" "length body < MaxMessage"
    by (rule marshal_ok [OF libs r]) blast
  obtain req out a f' where reply: "sub_reply J A S 2 proto req ?a = (out, a)" and a: "f_auth f' = a"
    and still: "pa_priv a = pa_priv (f_auth f) \<Longrightarrow> platform_by J P A S k f'"
    and run: "\<And>s body. out = Some (s # body) \<Longrightarrow> length body < MaxMessage \<Longrightarrow>
      cborCall P k CmdClientPIN ?m f =
        Some (if s = 0 then Inr body else Inl (Ctap2 (StatusRefusal ''Test Key'' s)), f')"
    by (rule platform_cborCall [OF assms(1) m, of proto 2]) (use assms(2) in \<open>auto simp: int64_def\<close>)
  have out: "out = Some (0 # body)" "a = ?a"
    using reply body(1) by (auto simp: sub_reply_def agreement_reply_def response_keys StatusOK_def)
  obtain raw where raw: "cb_map_u64 P body = Inr raw"
    and "\<And>k v. ?r (uint k) = Some v \<Longrightarrow> \<exists>m. raw k = Some m \<and> reads P v m \<and> cb_raw P m = Inr m"
    by (rule reads_u64 [OF body(2)]) auto
  from this(2) [of 1] obtain cose where cose: "raw 1 = Some cose" "reads P (GIntMap (agreement_cose ?a)) cose"
    by (auto simp del: reads.simps)
  have "coseToECDH P cose = Inr ?pub"
    using point by (intro coseToECDH_reads [OF cose(2)]) (auto simp: agreement_cose_def cose_defs int64_def Let_def split: if_splits)
  moreover have "cborCall P k CmdClientPIN ?m f = Some (Inr body, f')"
    using run [of 0 body] out(1) body(3) by simp
  ultimately have "KeyAgreement P k proto f = Some (Inr ?pub, f')"
    unfolding KeyAgreement_Inr using platform_open [OF assms(1)] raw cose(1) by blast
  then show ?thesis using still a out(2) by (intro that) auto
qed


text \<open>The platform's half of a token exchange, up to the request.\<close>

lemma shared_seams_simps [simp]:
  "sm_newECDHKey (shared_seams S) f = (let (r, e) = sm_newECDHKey S (pa_env (f_auth f)) in (r, with_env e f))"
  "sm_randRead (shared_seams S) n f = (let (r, e) = sm_randRead S n (pa_env (f_auth f)) in (r, with_env e f))"
  "sm_hkdfKey (shared_seams S) = sm_hkdfKey S"
  by (simp_all add: shared_seams_def)

lemma with_env_twice [simp]: "with_env e1 (with_env e f) = with_env e1 f"
  by (simp add: with_env_def)

lemma with_env_same [simp]: "with_env (pa_env (f_auth f)) f = f"
  by (simp add: with_env_def)

lemma pinHash_shared:
  assumes "healthy S a" and "usable keys" and "pin \<noteq> []"
  obtains h e where "pinHash (shared_seams S) keys pin f = Some (Inr h, with_env e f)" and "length h \<le> 32"
    and "decrypt keys h = Inr (take 16 (sha256 (bytes_of_string pin)))"
proof -
  let ?half = "take 16 (sha256 (bytes_of_string pin))"
  obtain bs e where rand: "sm_randRead S 16 (pa_env (f_auth f)) = (Inr bs, e)"
    using assms(1) unfolding healthy_def by blast
  have half: "?half \<noteq> []" "16 dvd length ?half" "length ?half = 16" by (auto simp flip: length_greater_0_conv)
  have "\<exists>h e. encrypt (shared_seams S) keys ?half f = Some (Inr h, with_env e f)"
  proof (cases "pk_proto keys = 2")
    case True
    with half assms(2) rand show ?thesis by (auto simp: encrypt_eq intro!: exI [of _ e])
  next
    case False
    with half assms(2) show ?thesis
      by (auto simp: encrypt_eq intro!: exI [of _ "pa_env (f_auth f)"])
  qed
  then obtain h e where h: "encrypt (shared_seams S) keys ?half f = Some (Inr h, with_env e f)" by blast
  with encrypt_Inr [OF h] half assms(3) show ?thesis
    by (intro that [of h e]) (auto simp: pinHash_def Let_def)
qed


lemma agreeing_COSE:
  assumes "NewPublicKey (pub_Bytes pub) = Inr pub"
  obtains x y where "length x = 32" and "length y = 32"
    and "ecdhToCOSE pub = Inr [1 \<mapsto> GInt 2, 3 \<mapsto> GInt (-25), -1 \<mapsto> GInt 1, -2 \<mapsto> GBytes x, -3 \<mapsto> GBytes y]"
proof -
  from assms obtain x y where "length x = 32" "length y = 32" "pub_Bytes pub = 0x04 # x @ y"
    by (auto simp: NewPublicKey_ok)
  then show ?thesis by (intro that [of x y]) (simp_all add: ecdhToCOSE_eq)
qed

text \<open>Requests the wire takes: any permissions, and a name of a reasonable length.\<close>

definition short_name :: "string \<Rightarrow> bool" where
  "short_name s \<longleftrightarrow> length s \<le> 7000 \<and> ascii s"

lemma pin_request_fits:
  assumes "length x = 32" and "length y = 32" and "length h \<le> 32" and "proto \<in> {1, 2}" and "short_name rpID"
    and "own = [1 \<mapsto> GInt 2, 3 \<mapsto> GInt (-25), -1 \<mapsto> GInt 1, -2 \<mapsto> GBytes x, -3 \<mapsto> GBytes y]"
  shows "fits (GIntMap (pin_request proto own h perms rpID))"
    and "\<forall>k \<in> dom (pin_request proto own h perms rpID). 0 \<le> k \<and> k < 2 ^ 64"
proof -
  have own: "encodable (GIntMap own)" "weight (GIntMap own) \<le> 300" "nests (GIntMap own) 31"
    unfolding measure_map using assms by auto
  have perms: "- (2 ^ 63) \<le> uint perms" "uint perms < 2 ^ 64"
    using uint_lt2p [of perms] by (simp_all add: order_trans [OF _ uint_nonnegative])
  have "encodable (GIntMap (pin_request proto own h perms rpID))"
    using own assms(3,4,5) perms
    by (auto simp: pin_request_def cp_defs Let_def encodable_map [of "_(_ := _)"] short_name_def)
  moreover have "weight (GIntMap (pin_request proto own h perms rpID)) < MaxMessage"
    using own assms(3,4,5)
    by (auto simp: pin_request_def cp_defs Let_def weight_map [of "_(_ := _)"] short_name_def wire_simps)
  moreover have "nests (GIntMap (pin_request proto own h perms rpID)) 32"
    using own by (auto simp: pin_request_def cp_defs Let_def nests_map [of "_(_ := _)"])
  ultimately show "fits (GIntMap (pin_request proto own h perms rpID))" by (simp add: fits_def)
  show "\<forall>k \<in> dom (pin_request proto own h perms rpID). 0 \<le> k \<and> k < 2 ^ 64"
    by (auto simp: pin_request_def cp_defs Let_def)
qed

lemma pin_request_members:
  "pin_request proto own h perms rpID 1 = Some (GInt proto)"
  "pin_request proto own h perms rpID 2 = Some (GInt (if perms = 0 then 5 else 9))"
  "pin_request proto own h perms rpID 3 = Some (GIntMap own)"
  "pin_request proto own h perms rpID 6 = Some (GBytes h)"
  by (simp_all add: pin_request_def cp_defs Let_def)


definition half_hash :: "string \<Rightarrow> bytes" where
  "half_hash pin = take 16 (sha256 (bytes_of_string pin))"

definition token_sub :: "Permissions \<Rightarrow> int" where
  "token_sub perms = (if perms = 0 then 5 else 9)"

text \<open>What a try comes to when it is granted or refused.\<close>

definition try_result :: "'e pin_auth \<Rightarrow> PINProtocol \<Rightarrow> byte option \<Rightarrow> Token outcome \<Rightarrow> bool" where
  "try_result a proto v r \<longleftrightarrow> (case v of
     Some s \<Rightarrow> r = Inl (Ctap2 (StatusRefusal ''Test Key'' s))
   | None \<Rightarrow> \<exists>keys. pk_proto keys = proto \<and> r = Inr \<lparr>t_keys = keys, t_raw = pa_token a\<rparr>)"

definition right_pin :: "'e pin_auth \<Rightarrow> string \<Rightarrow> bool" where
  "right_pin a pin \<longleftrightarrow> half_hash pin = half_hash (pa_pin a)"

lemma PINToken_platform:
  assumes "platform_by J P A S k f" and "proto \<in> {1, 2}" and "pin \<noteq> []" and "short_name rpID"
    and "length (pa_token (f_auth f)) = 32"
    and "po_try J (right_pin (f_auth f) pin) (pa_retries (f_auth f)) = (v, n)" and "v \<noteq> Some 0"
  shows "\<exists>r f' e. PINToken P (shared_seams S) k pin proto perms rpID f = Some (r, f') \<and>
    try_result (f_auth f) proto v r \<and> platform_by J P A S k f' \<and>
    f_auth f' = (f_auth f)\<lparr>pa_asked := pa_asked (f_auth f) @ [2, token_sub perms], pa_retries := n, pa_env := e\<rparr>"
proof -
  let ?S = "shared_seams S" and ?a = "f_auth f"
  obtain f1 where agreement: "KeyAgreement P k proto f = Some (Inr (priv_PublicKey (pa_priv ?a)), f1)"
    and f1: "platform_by J P A S k f1" "f_auth f1 = ?a\<lparr>pa_asked := pa_asked ?a @ [2]\<rparr>"
    by (rule KeyAgreement_platform [OF assms(1,2)])
  have libs: "libraries P A" and healthy: "healthy S (pa_priv ?a)"
    using assms(1) by (auto simp: platform_by_def)
  then obtain d e1 secret where d: "sm_newECDHKey S (pa_env (f_auth f1)) = (Inr d, e1)"
    and law: "agreeing d (pa_priv ?a) secret"
    unfolding healthy_def by blast
  from law have "NewPublicKey (pub_Bytes (priv_PublicKey d)) = Inr (priv_PublicKey d)"
    by (simp add: agreeing_def)
  then obtain x y where xy: "length x = 32" "length y = 32"
    and cose: "ecdhToCOSE (priv_PublicKey d) =
      Inr [1 \<mapsto> GInt 2, 3 \<mapsto> GInt (-25), -1 \<mapsto> GInt 1, -2 \<mapsto> GBytes x, -3 \<mapsto> GBytes y]"
    by (rule agreeing_COSE)
  let ?keys = "derived_keys proto secret"
  define own :: "int \<Rightarrow> gval option"
    where "own = [1 \<mapsto> GInt 2, 3 \<mapsto> GInt (-25), -1 \<mapsto> GInt 1, -2 \<mapsto> GBytes x, -3 \<mapsto> GBytes y]"
  note cose = cose [folded own_def]
  define f2 where "f2 = with_env e1 f1"
  have agree: "agree ?S proto (priv_PublicKey (pa_priv ?a)) f1 = Some (Inr (own, ?keys), f2)"
    using d cose law healthy derived_keys_simps(3) [OF assms(2)]
    by (auto simp: agree_eq_Inr agreeing_def healthy_def f2_def)
  obtain h e2 where hash: "pinHash ?S ?keys pin f2 = Some (Inr h, with_env e2 f2)" "length h \<le> 32"
    "decrypt ?keys h = Inr (half_hash pin)"
    using pinHash_shared [OF healthy derived_keys_simps(1) assms(3), of proto secret f2]
    unfolding half_hash_def by blast
  define f3 where "f3 = with_env e2 f2"
  have f3: "platform_by J P A S k f3" "f_auth f3 = ?a\<lparr>pa_asked := pa_asked ?a @ [2], pa_env := e2\<rparr>"
    using f1 by (simp_all add: f3_def f2_def)
  let ?m = "pin_request proto own h perms rpID"
  note fits = pin_request_fits [OF xy hash(2) assms(2,4) own_def, of perms]
  let ?a3 = "(f_auth f3)\<lparr>pa_asked := pa_asked (f_auth f3) @ [token_sub perms]\<rparr>"
  have sub: "?m 2 = Some (GInt (token_sub perms))" "int64 (token_sub perms)" "int64 proto"
    using assms(2) by (auto simp: pin_request_members token_sub_def int64_def)
  obtain req out a f' where reply: "sub_reply J A S (token_sub perms) proto req ?a3 = (out, a)"
    and members: "\<And>k v. ?m (uint k) = Some v \<Longrightarrow> \<exists>r. req k = Some r \<and> reads A v r \<and> cb_raw A r = Inr r"
    and a: "f_auth f' = a" and still: "pa_priv a = pa_priv (f_auth f3) \<Longrightarrow> platform_by J P A S k f'"
    and run: "\<And>s body. out = Some (s # body) \<Longrightarrow> length body < MaxMessage \<Longrightarrow>
      cborCall P k CmdClientPIN ?m f3 =
        Some (if s = 0 then Inr body else Inl (Ctap2 (StatusRefusal ''Test Key'' s)), f')"
    by (rule platform_cborCall [OF f3(1) fits pin_request_members(1) sub(3,1,2)]) blast
  have token: "token_reply_by J A S proto req ?a3 = (out, a)"
    using reply by (simp add: sub_reply_def token_sub_def split: if_splits)
  have m3: "\<exists>r. req 3 = Some r \<and> reads A (GIntMap own) r \<and> cb_raw A r = Inr r"
    using members [of 3] pin_request_members(3) by simp
  have m6: "\<exists>r. req 6 = Some r \<and> reads A (GBytes h) r"
    using members [of 6] pin_request_members(4) [of proto own h perms rpID] by auto
  note answers = token_reply_answers [of S ?a3 d secret proto own req A h, OF _ _ assms(2) cose m3 m6 hash(3), of J v n]
  have PINToken: "PINToken P ?S k pin proto perms rpID f =
      bindIO (cborCall P k CmdClientPIN ?m) (\<lambda>body. liftIO (parse_token P ?keys proto body)) f3"
    using agreement agree hash(1) assms(3)
    by (simp add: PINToken_def platform_ready [OF assms(1)] f3_def)
  have verdict: "case v of
      Some s \<Rightarrow> token_reply_by J A S proto req ?a3 = (Some [s], ?a3\<lparr>pa_retries := n\<rparr>)
    | None \<Rightarrow> pa_token ?a3 \<noteq> [] \<and> 16 dvd length (pa_token ?a3) \<longrightarrow>
        (\<exists>enc e. token_reply_by J A S proto req ?a3 =
           (Some (StatusOK # marshal A (GIntMap [2 \<mapsto> GBytes enc])), ?a3\<lparr>pa_retries := n, pa_env := e\<rparr>) \<and>
           length enc \<le> length (pa_token ?a3) + 16 \<and> decrypt ?keys enc = Inr (pa_token ?a3))"
    by (rule answers) (use healthy law f3(2) assms(6) in \<open>simp_all add: half_hash_def right_pin_def\<close>)
  show ?thesis
  proof (cases v)
    case None
    obtain enc e where reply: "out = Some (StatusOK # marshal A (GIntMap [2 \<mapsto> GBytes enc]))"
        "a = ?a3\<lparr>pa_retries := n, pa_env := e\<rparr>"
      and enc: "length enc \<le> 48" "decrypt ?keys enc = Inr (pa_token ?a)"
      using verdict f3(2) token None assms(5) by (auto simp flip: length_greater_0_conv)
    have r: "fits (GIntMap [2 \<mapsto> GBytes enc])"
      unfolding fits_def measure_map using enc(1) by (simp_all add: wire_simps)
    obtain body where body: "marshal A (GIntMap [2 \<mapsto> GBytes enc]) = body"
      "reads P (GIntMap [2 \<mapsto> GBytes enc]) body" "length body < MaxMessage"
      by (rule marshal_ok [OF libs r]) blast
    obtain raw where "cb_map_u64 P body = Inr raw"
      and "\<And>k v. [2 \<mapsto> GBytes enc] (uint k) = Some v \<Longrightarrow> \<exists>m. raw k = Some m \<and> reads P v m \<and> cb_raw P m = Inr m"
      by (rule reads_u64 [OF body(2)]) auto
    from this(1) this(2) [of 2] enc(2) assms(5)
    have "parse_token P ?keys proto body = Inr \<lparr>t_keys = ?keys, t_raw = pa_token ?a\<rparr>"
      by (auto simp: parse_token_eq_Inr)
    then have "PINToken P ?S k pin proto perms rpID f = Some (Inr \<lparr>t_keys = ?keys, t_raw = pa_token ?a\<rparr>, f')"
      using PINToken run [of 0 body] reply(1) body by (simp add: StatusOK_def)
    then show ?thesis
      using None still reply(2) a f3(2) derived_keys_simps(2) [OF assms(2)]
      by (intro exI [of _ "Inr \<lparr>t_keys = ?keys, t_raw = pa_token ?a\<rparr>"] exI [of _ f'] exI [of _ e])
         (auto simp: try_result_def)
  next
    case (Some s)
    with verdict token have reply: "out = Some [s]" "a = ?a3\<lparr>pa_retries := n\<rparr>" by simp_all
    then have "PINToken P ?S k pin proto perms rpID f = Some (Inl (Ctap2 (StatusRefusal ''Test Key'' s)), f')"
      using PINToken run [of s "[]"] Some assms(7) by (simp add: wire_simps)
    then show ?thesis using Some still reply(2) a f3(2)
      by (intro exI [of _ "Inl (Ctap2 (StatusRefusal ''Test Key'' s))"] exI [of _ f'] exI [of _ e2])
         (auto simp: try_result_def)
  qed
qed


section \<open>One PIN after another\<close>

fun attempts ::
    "cbor \<Rightarrow> 'w seams \<Rightarrow> 'w key \<Rightarrow> PINProtocol \<Rightarrow> Permissions \<Rightarrow> string \<Rightarrow> string list \<Rightarrow> 'w \<Rightarrow>
      (Token outcome list \<times> 'w) option" where
  "attempts P S k proto perms rpID [] w = Some ([], w)"
| "attempts P S k proto perms rpID (pin # pins) w = (case PINToken P S k pin proto perms rpID w of
     None \<Rightarrow> None
   | Some (r, w1) \<Rightarrow> map_option (\<lambda>(rs, w2). (r # rs, w2)) (attempts P S k proto perms rpID pins w1))"

definition wrong_pin :: "'e pin_auth \<Rightarrow> string \<Rightarrow> bool" where
  "wrong_pin a pin \<longleftrightarrow> half_hash pin \<noteq> half_hash (pa_pin a)"

text \<open>What one attempt comes to: the token, under keys of the protocol, or the status for a wrong PIN.\<close>

definition attempt_result :: "'e pin_auth \<Rightarrow> PINProtocol \<Rightarrow> string \<Rightarrow> Token outcome \<Rightarrow> bool" where
  "attempt_result a proto pin r \<longleftrightarrow>
     (if wrong_pin a pin then r = Inl (Ctap2 (StatusRefusal ''Test Key'' 0x31))
      else \<exists>keys. pk_proto keys = proto \<and> r = Inr \<lparr>t_keys = keys, t_raw = pa_token a\<rparr>)"

lemma attempt_platform:
  assumes "platform P A S k f" and "proto \<in> {1, 2}" and "pin \<noteq> []" and "short_name rpID"
    and "length (pa_token (f_auth f)) = 32"
  shows "\<exists>r f' e. PINToken P (shared_seams S) k pin proto perms rpID f = Some (r, f') \<and>
    attempt_result (f_auth f) proto pin r \<and> platform P A S k f' \<and>
    f_auth f' = (f_auth f)\<lparr>pa_asked := pa_asked (f_auth f) @ [2, token_sub perms],
      pa_retries := pa_retries (f_auth f) - (if wrong_pin (f_auth f) pin then 1 else 0), pa_env := e\<rparr>"
proof -
  let ?v = "if wrong_pin (f_auth f) pin then Some (0x31 :: byte) else None"
  have "po_try tests_policy (right_pin (f_auth f) pin) (pa_retries (f_auth f)) =
      (?v, pa_retries (f_auth f) - (if wrong_pin (f_auth f) pin then 1 else 0))"
    by (simp add: tests_policy_def wrong_pin_def right_pin_def)
  moreover have "?v \<noteq> Some 0" by simp
  moreover have "try_result (f_auth f) proto ?v = attempt_result (f_auth f) proto pin"
    by (simp add: fun_eq_iff try_result_def attempt_result_def)
  ultimately show ?thesis
    using PINToken_platform [OF assms(1) [unfolded platform_tests] assms(2-5), of ?v _ perms]
    unfolding platform_tests by metis
qed

text \<open>The verdicts of a policy on one PIN after another, and the count they lead to.\<close>

fun verdicts :: "policy \<Rightarrow> int \<Rightarrow> bool list \<Rightarrow> byte option list \<times> int" where
  "verdicts J n [] = ([], n)"
| "verdicts J n (right # rights) =
     (let (v, n1) = po_try J right n; (vs, n2) = verdicts J n1 rights in (v # vs, n2))"

lemma attempts_platform:
  assumes "platform_by J P A S k f" and "proto \<in> {1, 2}" and "short_name rpID"
    and "length (pa_token (f_auth f)) = 32" and "[] \<notin> set pins" and "\<And>right n. fst (po_try J right n) \<noteq> Some 0"
    and "verdicts J (pa_retries (f_auth f)) (map (right_pin (f_auth f)) pins) = (vs, n)"
  shows "\<exists>rs f' e asked. attempts P (shared_seams S) k proto perms rpID pins f = Some (rs, f') \<and>
    list_all2 (try_result (f_auth f) proto) vs rs \<and> platform_by J P A S k f' \<and>
    f_auth f' = (f_auth f)\<lparr>pa_asked := asked, pa_retries := n, pa_env := e\<rparr>"
  using assms(1,4,5,7)
proof (induction pins arbitrary: f vs)
  case Nil
  then show ?case
    by (intro exI [of _ "[]"] exI [of _ f] exI [of _ "pa_env (f_auth f)"] exI [of _ "pa_asked (f_auth f)"]) simp
next
  case (Cons pin pins)
  obtain v n1 where v: "po_try J (right_pin (f_auth f) pin) (pa_retries (f_auth f)) = (v, n1)" by fastforce
  obtain vs' n2 where vs': "verdicts J n1 (map (right_pin (f_auth f)) pins) = (vs', n2)" by fastforce
  have vs: "vs = v # vs'" "n2 = n" using Cons.prems(4) v vs' by (simp_all add: Let_def)
  have "v \<noteq> Some 0" using assms(6) [of "right_pin (f_auth f) pin" "pa_retries (f_auth f)"] v by simp
  from PINToken_platform [OF Cons.prems(1) assms(2) _ assms(3) Cons.prems(2) v this, of perms] Cons.prems(3)
  obtain r f1 e1 where run: "PINToken P (shared_seams S) k pin proto perms rpID f = Some (r, f1)"
    and r: "try_result (f_auth f) proto v r" and f1: "platform_by J P A S k f1"
    and auth: "f_auth f1 = (f_auth f)\<lparr>pa_asked := pa_asked (f_auth f) @ [2, token_sub perms],
      pa_retries := n1, pa_env := e1\<rparr>"
    by auto
  have same: "right_pin (f_auth f1) = right_pin (f_auth f)" "try_result (f_auth f1) = try_result (f_auth f)"
    by (auto simp: auth fun_eq_iff right_pin_def try_result_def split: option.split)
  have "verdicts J (pa_retries (f_auth f1)) (map (right_pin (f_auth f1)) pins) = (vs', n)"
    unfolding same using vs' vs(2) auth by simp
  from Cons.IH [OF f1 _ _ this] Cons.prems(2,3) auth
  obtain rs f2 e asked where "attempts P (shared_seams S) k proto perms rpID pins f1 = Some (rs, f2)"
    "list_all2 (try_result (f_auth f) proto) vs' rs" "platform_by J P A S k f2"
    "f_auth f2 = (f_auth f1)\<lparr>pa_asked := asked, pa_retries := n, pa_env := e\<rparr>"
    unfolding same by auto
  then show ?case using run r auth vs(1)
    by (intro exI [of _ "r # rs"] exI [of _ f2] exI [of _ e] exI [of _ asked]) auto
qed

section \<open>A test run\<close>

definition sample_auth :: "unit pin_auth" where
  "sample_auth = \<lparr>pa_priv = sample_private, pa_pin = ''1234'', pa_token = replicate 32 7, pa_retries = 8,
     pa_asked = [], pa_env = ()\<rparr>"

definition sample_nonce :: bytes where "sample_nonce = [0xA0, 0xA1, 0xA2, 0xA3, 0xA4, 0xA5, 0xA6, 0xA7]"

definition sample_key :: "unit pin_auth fake key" where
  "sample_key = \<lparr>k_t = Some (fake_key_transport sample_nonce 0xC7A9 4 (pin_reply codec fixed_seams)),
     k_channel = 0xC7A9, k_version = zero_version, k_caps = 4\<rparr>"

lemma healthy_fixed: "healthy fixed_seams sample_private"
proof -
  have "NewPublicKey (pub_Bytes G_public) = Inr G_public"
    using NewPublicKey_encode [OF G_on_curve] by (simp add: G_public_def Gx_bytes_def Gy_bytes_def)
  then show ?thesis by (simp add: healthy_def agreeing_def)
qed

definition described_key :: "unit pin_auth fake key" where
  "described_key = \<lparr>k_t = Some (fake_key_transport sample_nonce 0xC7A9 4 (pin_reply_by (described_policy 8) codec fixed_seams)),
     k_channel = 0xC7A9, k_version = zero_version, k_caps = 4\<rparr>"

lemma described_platform: "platform_by (described_policy 8) codec codec fixed_seams described_key (newFake 0xC7A9 sample_auth)"
proof -
  have "plugged_in sample_nonce 0xC7A9 4 (pin_reply_by (described_policy 8) codec fixed_seams) described_key
      (newFake 0xC7A9 sample_auth)"
    by (simp add: plugged_in_def described_key_def quiet_newFake BroadcastChannel_def)
  then show ?thesis
    by (auto simp: platform_by_def libraries_codec healthy_fixed sample_auth_def newFake_def
        described_key_def bit_numeral_word_iff)
qed

lemma sample_platform: "platform codec codec fixed_seams sample_key (newFake 0xC7A9 sample_auth)"
proof -
  have "plugged_in sample_nonce 0xC7A9 4 (pin_reply codec fixed_seams) sample_key (newFake 0xC7A9 sample_auth)"
    by (simp add: plugged_in_def sample_key_def quiet_newFake BroadcastChannel_def)
  then have "\<exists>nonce. plugged_in nonce (k_channel sample_key) (k_caps sample_key) (pin_reply codec fixed_seams)
      sample_key (newFake 0xC7A9 sample_auth)"
    by (auto simp: sample_key_def)
  moreover have "f_auth (newFake 0xC7A9 sample_auth) = sample_auth" by (simp add: newFake_def)
  ultimately show ?thesis
    by (simp add: platform_def libraries_codec healthy_fixed sample_auth_def
        sample_key_def bit_numeral_word_iff)
qed

section \<open>Properties\<close>

text \<open>
  C1. A PIN is exchanged for a token, end to end: through the framing, the CBOR libraries, the
  agreement on a key and the sealing of one PIN protocol or the other, the program and the
  authenticator understand each other.  If the two PINs have the same half hash, the program
  returns the very token the authenticator holds, under keys of the protocol asked for, and the
  authenticator counts no try; if not, the program reports the status for a wrong PIN, and the
  authenticator counts one.  Either way it was asked two things, for its key and for a token by
  the subcommand that goes with the permissions, and another exchange can follow.
\<close>

theorem PIN_exchange_end_to_end:
  assumes "platform P A S k f" and "proto \<in> {1, 2}" and "pin \<noteq> []" and "short_name rpID"
    and "length (pa_token (f_auth f)) = 32"
  shows "\<exists>r f' e. PINToken P (shared_seams S) k pin proto perms rpID f = Some (r, f') \<and>
    (if half_hash pin = half_hash (pa_pin (f_auth f))
     then \<exists>keys. pk_proto keys = proto \<and> r = Inr \<lparr>t_keys = keys, t_raw = pa_token (f_auth f)\<rparr>
     else r = Inl (Ctap2 (StatusRefusal ''Test Key'' 0x31))) \<and>
    platform P A S k f' \<and>
    f_auth f' = (f_auth f)\<lparr>pa_asked := pa_asked (f_auth f) @ [2, if perms = 0 then 5 else 9],
      pa_retries := pa_retries (f_auth f) -
        (if half_hash pin = half_hash (pa_pin (f_auth f)) then 0 else 1), pa_env := e\<rparr>"
proof -
  obtain r f' e where "PINToken P (shared_seams S) k pin proto perms rpID f = Some (r, f')"
    "attempt_result (f_auth f) proto pin r" "platform P A S k f'"
    "f_auth f' = (f_auth f)\<lparr>pa_asked := pa_asked (f_auth f) @ [2, token_sub perms],
      pa_retries := pa_retries (f_auth f) - (if wrong_pin (f_auth f) pin then 1 else 0), pa_env := e\<rparr>"
    using attempt_platform [OF assms, of perms] by blast
  then show ?thesis
    by (intro exI [of _ r] exI [of _ f'] exI [of _ e])
       (auto simp: attempt_result_def wrong_pin_def token_sub_def)
qed

theorem PIN_exchange_end_to_end_witness:
  "\<exists>t f'. PINToken codec (shared_seams fixed_seams) sample_key ''1234'' 2 3 ''example.com''
       (newFake 0xC7A9 sample_auth) = Some (Inr t, f') \<and>
     Token_Protocol t = 2 \<and> t_raw t = replicate 32 7 \<and>
     pa_asked (f_auth f') = [2, 9] \<and> pa_retries (f_auth f') = 8"
proof -
  have "short_name ''example.com''" by (simp add: short_name_def ascii_def)
  from PIN_exchange_end_to_end [OF sample_platform _ _ this, of 2 "''1234''" 3] show ?thesis
    by (auto simp: newFake_def sample_auth_def Token_Protocol_def)
qed

text \<open>
  C15. Tries are counted by the authenticator, and reported as it counts them.  However it counts --
  as the tests' authenticator does, or as the comments of \<open>clientpin.go\<close> say, with a right PIN
  restoring the count and none taken once it has run out -- after any sequence of PINs, tried one
  after the other over one connection, each attempt has come to the token or to the status the
  authenticator's verdict on it is, and what \<open>PINRetries\<close> then reports is the count these verdicts
  lead to, and whether at that count the key is to be unplugged.
\<close>

theorem tries_are_counted:
  assumes "platform_by J P A S k f" and "proto \<in> {1, 2}" and "short_name rpID" and "[] \<notin> set pins"
    and "length (pa_token (f_auth f)) = 32" and "\<And>right n. fst (po_try J right n) \<noteq> Some 0"
    and "verdicts J (pa_retries (f_auth f)) (map (right_pin (f_auth f)) pins) = (vs, n)" and "int64 n"
  shows "\<exists>rs f1 f2. attempts P (shared_seams S) k proto perms rpID pins f = Some (rs, f1) \<and>
    list_all2 (try_result (f_auth f) proto) vs rs \<and>
    PINRetries P k f1 = Some (Inr \<lparr>rt_PIN = n, rt_PowerCycle = po_cycle J n\<rparr>, f2) \<and>
    pa_retries (f_auth f2) = n \<and> platform_by J P A S k f2"
proof -
  obtain rs f1 e asked where tried: "attempts P (shared_seams S) k proto perms rpID pins f = Some (rs, f1)"
      "list_all2 (try_result (f_auth f) proto) vs rs" and f1: "platform_by J P A S k f1"
    and auth: "f_auth f1 = (f_auth f)\<lparr>pa_asked := asked, pa_retries := n, pa_env := e\<rparr>"
    using attempts_platform [OF assms(1-3,5,4,6,7), of perms] by blast
  from auth assms(8) have "int64 (pa_retries (f_auth f1))" by simp
  with f1 obtain f2 where
    "PINRetries P k f1 = Some (Inr \<lparr>rt_PIN = pa_retries (f_auth f1), rt_PowerCycle = po_cycle J (pa_retries (f_auth f1))\<rparr>, f2)"
    "platform_by J P A S k f2" "f_auth f2 = (f_auth f1)\<lparr>pa_asked := pa_asked (f_auth f1) @ [1]\<rparr>"
    by (rule PINRetries_platform)
  with tried auth show ?thesis by auto
qed

text \<open>
  Two other PINs and the right one: each of the two is refused unless its half hash is that of the
  right one, the third gets the token, and there are all eight tries again.
\<close>

theorem tries_are_counted_witness:
  "\<exists>r1 r2 t f1 f2. attempts codec (shared_seams fixed_seams) described_key 1 0 [] [''0000'', ''1111'', ''1234'']
       (newFake 0xC7A9 sample_auth) = Some ([r1, r2, Inr t], f1) \<and>
     (half_hash ''0000'' = half_hash ''1234'' \<or> r1 = Inl (Ctap2 (StatusRefusal ''Test Key'' 0x31))) \<and>
     (half_hash ''1111'' = half_hash ''1234'' \<or> r2 = Inl (Ctap2 (StatusRefusal ''Test Key'' 0x31))) \<and>
     t_raw t = replicate 32 7 \<and>
     PINRetries codec described_key f1 = Some (Inr \<lparr>rt_PIN = 8, rt_PowerCycle = False\<rparr>, f2)"
proof -
  let ?pins = "[''0000'', ''1111'', ''1234'']"
  let ?v = "\<lambda>pin. if half_hash pin = half_hash ''1234'' then None else Some (0x31 :: byte)"
  have auth: "f_auth (newFake 0xC7A9 sample_auth) = sample_auth" by (simp add: newFake_def)
  have name: "short_name []" by (simp add: short_name_def ascii_def)
  have token: "length (pa_token sample_auth) = 32" by (simp add: sample_auth_def)
  have refusals: "fst (po_try (described_policy 8) right n) \<noteq> Some 0" for right n
    by (simp add: described_policy_def)
  have right: "right_pin sample_auth pin \<longleftrightarrow> half_hash pin = half_hash ''1234''" for pin
    by (simp add: right_pin_def sample_auth_def)
  have counted: "verdicts (described_policy 8) (pa_retries sample_auth) (map (right_pin sample_auth) ?pins) =
      ([?v ''0000'', ?v ''1111'', None], 8)"
    by (simp add: right described_policy_def) (simp add: sample_auth_def)
  have "[] \<notin> set ?pins" "(1 :: PINProtocol) \<in> {1, 2}" "int64 8" by (simp_all add: int64_def)
  from tries_are_counted [OF described_platform, unfolded auth, OF this(2) name this(1) token refusals counted
      this(3), of 0]
  obtain rs f1 f2 where attempts: "attempts codec (shared_seams fixed_seams) described_key 1 0 [] ?pins
        (newFake 0xC7A9 sample_auth) = Some (rs, f1)"
    and rs: "list_all2 (try_result sample_auth 1) [?v ''0000'', ?v ''1111'', None] rs"
    and count: "PINRetries codec described_key f1 =
      Some (Inr \<lparr>rt_PIN = 8, rt_PowerCycle = po_cycle (described_policy 8) 8\<rparr>, f2)"
    by blast
  have refused: "half_hash pin = half_hash ''1234'' \<or> r = Inl (Ctap2 (StatusRefusal ''Test Key'' 0x31))"
    if "try_result sample_auth 1 (?v pin) r" for pin r
    using that by (auto simp: try_result_def split: if_splits)
  from rs obtain r1 r2 t where three: "rs = [r1, r2, Inr t]" and r: "try_result sample_auth 1 (?v ''0000'') r1"
    "try_result sample_auth 1 (?v ''1111'') r2" and raw: "t_raw t = replicate 32 7"
    by (auto simp: list_all2_Cons1 try_result_def [of _ _ None] sample_auth_def)
  have "po_cycle (described_policy 8) 8 = False" by (simp add: described_policy_def)
  with count have "PINRetries codec described_key f1 = Some (Inr \<lparr>rt_PIN = 8, rt_PowerCycle = False\<rparr>, f2)"
    by simp
  then show ?thesis
    by (intro exI conjI) (rule attempts [unfolded three] refused [OF r(1)] refused [OF r(2)] raw | assumption)+
qed

end
