(* ===== verification/CredPeer.thy ===== *)
theory CredPeer
  imports PinPeer Credential
begin

text \<open>
  The authenticators of \<open>credential_test.go\<close>, which keep the request they are sent and answer it
  with a reply made up beforehand, behind the fake key of \<open>Peer\<close>; and registrations, assertions and
  descriptions played to their end between them and the program.  What an authenticator makes of a
  request is stated with its own decoders: \<open>sees_registration\<close> and \<open>sees_assertion\<close>.
\<close>

section \<open>The authenticators\<close>

definition decodeRequest :: "cbor \<Rightarrow> bytes \<Rightarrow> ext_error + (u64 \<Rightarrow> bytes option)" where
  "decodeRequest A params = cb_map_u64 A params"

text \<open>The closures that keep what they have \<open>seen\<close> of one command.\<close>

definition watching ::
    "cbor \<Rightarrow> byte \<Rightarrow> bytes \<Rightarrow> byte \<Rightarrow> bytes \<Rightarrow> (u64 \<Rightarrow> bytes option) option \<Rightarrow>
      bytes option \<times> (u64 \<Rightarrow> bytes option) option" where
  "watching A watched reply cmd params seen =
     (if cmd = watched then must (decodeRequest A params) seen (\<lambda>m. (Some (StatusOK # reply), Some m))
      else (Some (StatusOK # reply), seen))"

text \<open>The replies: what is optional is \<open>None\<close> where a test leaves it out.\<close>

definition with_member :: "'k \<Rightarrow> gval option \<Rightarrow> ('k \<Rightarrow> gval option) \<Rightarrow> 'k \<Rightarrow> gval option" where
  "with_member k v m = (case v of None \<Rightarrow> m | Some v \<Rightarrow> m(k \<mapsto> v))"

definition attestation_map :: "string \<Rightarrow> bytes \<Rightarrow> gval option \<Rightarrow> int \<Rightarrow> gval option" where
  "attestation_map format authData stmt =
     with_member (uint mcRespAttStmt) stmt
       [uint mcRespFmt \<mapsto> GText format, uint mcRespAuthData \<mapsto> GBytes authData]"

definition assertion_map ::
    "bytes \<Rightarrow> bytes \<Rightarrow> (string \<times> bytes) option \<Rightarrow> bytes option \<Rightarrow> u64 option \<Rightarrow> int \<Rightarrow> gval option" where
  "assertion_map authData sig cred user available =
     with_member (uint gaRespCredential)
       (map_option (\<lambda>(ty, cid). GTextMap [''type'' \<mapsto> GText ty, ''id'' \<mapsto> GBytes cid]) cred)
     (with_member (uint gaRespUser) (map_option (\<lambda>uid. GTextMap [''id'' \<mapsto> GBytes uid]) user)
     (with_member (uint gaRespAvailable) (map_option (\<lambda>n. GInt (uint n)) available)
       [uint gaRespAuthData \<mapsto> GBytes authData, uint gaRespSignature \<mapsto> GBytes sig]))"

text \<open>Authenticator data as \<open>authdata_test.go\<close> builds it.\<close>

definition build :: "Flags \<Rightarrow> u32 \<Rightarrow> bytes \<Rightarrow> bytes" where
  "build flags signs tail =
     (let b = map of_nat [0..<32] @ make_bytes (authDataHeader - 32);
          b = b[32 := flags];
          b = copy_at 33 b (PutUint32 signs)
      in b @ tail)"

definition attested :: "cbor \<Rightarrow> bytes \<Rightarrow> bytes \<Rightarrow> bytes" where
  "attested A credID extra =
     (let key = marshal A (GIntMap [1 \<mapsto> GInt 2, 3 \<mapsto> GInt (-7)])
      in replicate aaguidLen 0xAB @ PutUint16 (of_nat (length credID)) @ credID @ key @ extra)"

text \<open>A credential's key as \<open>realP256\<close> of \<open>cose_test.go\<close> writes it.\<close>

definition cose_of :: "bytes \<Rightarrow> bytes \<Rightarrow> int \<Rightarrow> gval option" where
  "cose_of x y =
     [coseKty \<mapsto> GInt coseKtyEC2, coseAlg \<mapsto> GInt AlgES256, coseCrv \<mapsto> GInt coseCrvP256,
      coseX \<mapsto> GBytes x, coseY \<mapsto> GBytes y]"

section \<open>What an authenticator sees\<close>

definition sees_if :: "bool \<Rightarrow> ('k \<Rightarrow> bytes option) \<Rightarrow> 'k \<Rightarrow> (bytes \<Rightarrow> ext_error + 'a) \<Rightarrow> 'a \<Rightarrow> bool" where
  "sees_if given raw k dec v \<longleftrightarrow> (if given then has_member raw k dec v else raw k = None)"

definition sees_credential :: "cbor \<Rightarrow> bytes \<Rightarrow> credential \<Rightarrow> bool" where
  "sees_credential A b c \<longleftrightarrow> (\<exists>d. cb_map_text A b = Inr d \<and>
     has_member d ''type'' (cb_text A) (if c_Type c = [] then ''public-key'' else c_Type c) \<and>
     has_member d ''id'' (cb_bytes A) (c_ID c) \<and>
     sees_if (c_Transports c \<noteq> []) d ''transports'' (cb_texts A) (c_Transports c))"

definition sees_credentials :: "cbor \<Rightarrow> (u64 \<Rightarrow> bytes option) \<Rightarrow> u64 \<Rightarrow> credential list \<Rightarrow> bool" where
  "sees_credentials A raw k cs \<longleftrightarrow>
     (if cs = [] then raw k = None
      else \<exists>bs. has_member raw k (cb_raws A) bs \<and> list_all2 (sees_credential A) bs cs)"

definition sees_options :: "cbor \<Rightarrow> (u64 \<Rightarrow> bytes option) \<Rightarrow> u64 \<Rightarrow> (string \<times> bool) list \<Rightarrow> bool" where
  "sees_options A raw k opts \<longleftrightarrow>
     (if opts = [] then raw k = None
      else \<exists>got. has_member raw k (cb_options A) got \<and> map_of got = map_of opts)"

definition sees_token :: "cbor \<Rightarrow> (u64 \<Rightarrow> bytes option) \<Rightarrow> u64 \<Rightarrow> u64 \<Rightarrow> Token \<Rightarrow> bytes \<Rightarrow> bool" where
  "sees_token A raw param proto t hash \<longleftrightarrow>
     sees_if (Token_Valid t) raw param (cb_bytes A) (authParam t hash) \<and>
     sees_if (Token_Valid t) raw proto (cb_int A) (Token_Protocol t)"

definition sees_algorithm :: "cbor \<Rightarrow> bytes \<Rightarrow> int \<Rightarrow> bool" where
  "sees_algorithm A b alg \<longleftrightarrow> (\<exists>d. cb_map_text A b = Inr d \<and> has_member d ''alg'' (cb_int A) alg \<and>
     has_member d ''type'' (cb_text A) ''public-key'')"

definition sees_registration :: "cbor \<Rightarrow> (u64 \<Rightarrow> bytes option) \<Rightarrow> MakeCredentialRequest \<Rightarrow> bool" where
  "sees_registration A raw r \<longleftrightarrow>
     has_member raw 1 (cb_bytes A) (mr_ClientDataHash r) \<and>
     (\<exists>rp. has_member raw 2 (cb_map_text A) rp \<and> has_member rp ''id'' (cb_text A) (rp_ID (mr_RP r)) \<and>
        has_member rp ''name'' (cb_text A) (rp_Name (mr_RP r))) \<and>
     (\<exists>u. has_member raw 3 (cb_map_text A) u \<and> has_member u ''id'' (cb_bytes A) (u_ID (mr_User r)) \<and>
        sees_if (u_Name (mr_User r) \<noteq> []) u ''name'' (cb_text A) (u_Name (mr_User r)) \<and>
        sees_if (u_DisplayName (mr_User r) \<noteq> []) u ''displayName'' (cb_text A) (u_DisplayName (mr_User r))) \<and>
     (\<exists>bs. has_member raw 4 (cb_raws A) bs \<and>
        list_all2 (sees_algorithm A) bs (if mr_Algorithms r = [] then [-7] else mr_Algorithms r)) \<and>
     sees_credentials A raw 5 (mr_Exclude r) \<and>
     sees_options A raw 7 (mr_Options r) \<and>
     sees_token A raw 8 9 (mr_Token r) (mr_ClientDataHash r)"

definition sees_assertion :: "cbor \<Rightarrow> (u64 \<Rightarrow> bytes option) \<Rightarrow> GetAssertionRequest \<Rightarrow> bool" where
  "sees_assertion A raw r \<longleftrightarrow>
     has_member raw 1 (cb_text A) (gr_RPID r) \<and>
     has_member raw 2 (cb_bytes A) (gr_ClientDataHash r) \<and>
     sees_credentials A raw 3 (gr_Allow r) \<and>
     sees_options A raw 5 (gr_Options r) \<and>
     sees_token A raw 6 7 (gr_Token r) (gr_ClientDataHash r)"

section \<open>Maps as they were written\<close>

definition holds :: "cbor \<Rightarrow> ('k \<Rightarrow> bytes option) \<Rightarrow> 'k \<Rightarrow> gval \<Rightarrow> bool" where
  "holds C raw k v \<longleftrightarrow> (\<exists>r. raw k = Some r \<and> reads C v r)"

definition read_as :: "cbor \<Rightarrow> ('k \<Rightarrow> gval option) \<Rightarrow> ('k \<Rightarrow> bytes option) \<Rightarrow> bool" where
  "read_as C m raw \<longleftrightarrow> (\<forall>k. case m k of None \<Rightarrow> raw k = None | Some v \<Rightarrow> holds C raw k v)"

lemma read_as_Some: "read_as C m raw \<Longrightarrow> m k = Some v \<Longrightarrow> holds C raw k v"
  unfolding read_as_def by (drule spec [of _ k]) simp

lemma read_as_None: "read_as C m raw \<Longrightarrow> m k = None \<Longrightarrow> raw k = None"
  unfolding read_as_def by (drule spec [of _ k]) simp

lemma holds_member:
  "holds C raw k (GBytes x) \<Longrightarrow> has_member raw k (cb_bytes C) x"
  "holds C raw k (GText s) \<Longrightarrow> ascii s \<Longrightarrow> has_member raw k (cb_text C) s"
  "holds C raw k (GInt i) \<Longrightarrow> int64 i \<Longrightarrow> has_member raw k (cb_int C) i"
  "holds C raw k (GInt (uint n)) \<Longrightarrow> has_member raw k (cb_uint C) n"
  "holds C raw k (GArray (map GText ss)) \<Longrightarrow> \<forall>s \<in> set ss. ascii s \<Longrightarrow> has_member raw k (cb_texts C) ss"
  "holds C raw k (GArray (map (\<lambda>n. GInt (uint n)) ns)) \<Longrightarrow> has_member raw k (cb_uints C) ns"
  using uint_lt2p [of n] by (auto simp: holds_def has_member_def reads_lists_def)

lemma reads_u64_as:
  assumes "reads C (GIntMap m) b" and "\<forall>k \<in> dom m. 0 \<le> k \<and> k < 2 ^ 64"
  obtains raw where "cb_map_u64 C b = Inr raw" and "read_as C (\<lambda>k. m (uint k)) raw"
proof -
  obtain raw where raw: "cb_map_u64 C b = Inr raw"
    and members: "\<And>k v. m (uint k) = Some v \<Longrightarrow> \<exists>r. raw k = Some r \<and> reads C v r \<and> cb_raw C r = Inr r"
    using reads_u64 [OF assms] by blast
  have "case m (uint k) of None \<Rightarrow> raw k = None | Some v \<Rightarrow> holds C raw k v" for k
    using reads_u64_absent [OF assms raw, of k] members [of k]
    by (cases "m (uint k)") (auto simp: holds_def)
  with raw show ?thesis by (intro that) (auto simp: read_as_def)
qed

lemma reads_text_as:
  assumes "reads C (GTextMap m) b" and "encodable (GTextMap m)"
  obtains t where "cb_map_text C b = Inr t" and "read_as C m t"
proof -
  from assms(2) have keys: "\<forall>k \<in> dom m. ascii k" unfolding encodable_map by blast
  obtain t where t: "cb_map_text C b = Inr t"
    and members: "\<And>k v. m k = Some v \<Longrightarrow> \<exists>r. t k = Some r \<and> reads C v r"
    using reads_text_map [OF assms(1) keys] by blast
  have "case m k of None \<Rightarrow> t k = None | Some v \<Rightarrow> holds C t k v" for k
    using reads_text_map_absent [OF assms(1) keys t, of k] members [of k]
    by (cases "m k") (auto simp: holds_def)
  with t show ?thesis by (intro that [of t]) (auto simp: read_as_def)
qed

lemma holds_text_map:
  assumes "holds C raw k (GTextMap m)" and "encodable (GTextMap m)"
  obtains t where "has_member raw k (cb_map_text C) t" and "read_as C m t"
proof -
  from assms(1) obtain b where b: "raw k = Some b" "reads C (GTextMap m) b" by (auto simp: holds_def)
  obtain t where "cb_map_text C b = Inr t" "read_as C m t" by (rule reads_text_as [OF b(2) assms(2)])
  with b(1) show ?thesis by (intro that [of t]) (auto simp: has_member_def)
qed

lemma holds_array:
  assumes "holds C raw k (GArray vs)"
  obtains bs where "has_member raw k (cb_raws C) bs" and "list_all2 (reads C) vs bs"
proof -
  from assms obtain b bs where "raw k = Some b" "cb_raws C b = Inr bs"
    "list_all2 (\<lambda>v r. reads C v r \<and> cb_raw C r = Inr r) vs bs"
    by (auto simp: holds_def list_all2_map1)
  then show ?thesis
    by (intro that [of bs]) (auto simp: has_member_def intro: list_all2_mono)
qed

lemma holds_options:
  assumes "holds C raw k (options_value opts)" and "encodable (options_value opts)"
  shows "\<exists>got. has_member raw k (cb_options C) got \<and> map_of got = map_of opts"
proof -
  let ?m = "\<lambda>k. map_option GBool (map_of opts k)"
  from assms(1) obtain b where b: "raw k = Some b" "reads C (GTextMap ?m) b"
    unfolding holds_def options_value_def by blast
  from assms(2) have "\<forall>k \<in> dom ?m. ascii k" unfolding options_value_def encodable_map by blast
  with b(2) have "reads_structs C ?m b" by (simp add: Let_def)
  then obtain got where "cb_options C b = Inr got" "map_of got = map_of opts"
    unfolding reads_structs_def by blast
  with b(1) show ?thesis by (auto simp: has_member_def)
qed

lemma encodable_member:
  "encodable (GIntMap m) \<Longrightarrow> m k = Some v \<Longrightarrow> encodable v"
  "encodable (GTextMap t) \<Longrightarrow> t s = Some v \<Longrightarrow> encodable v"
  unfolding encodable_map by (metis domI option.sel)+

section \<open>Requests seen\<close>

lemma descriptor_members:
  "descriptor c = (\<lambda>s. if s = ''type'' then Some (GText (if c_Type c = [] then ''public-key'' else c_Type c))
     else if s = ''id'' then Some (GBytes (c_ID c))
     else if s = ''transports'' \<and> c_Transports c \<noteq> [] then Some (GArray (map GText (c_Transports c)))
     else None)"
  by (auto simp: descriptor_def fun_eq_iff Let_def)

lemma sees_if_read:
  assumes "read_as A m raw" and "m k = (if given then Some v else None)"
    and "given \<Longrightarrow> holds A raw k v \<Longrightarrow> has_member raw k dec x"
  shows "sees_if given raw k dec x"
  using assms read_as_Some [OF assms(1), of k v] read_as_None [OF assms(1), of k]
  by (auto simp: sees_if_def)

lemma sees_text_read:
  assumes "read_as A m raw" and "encodable (GTextMap m)"
    and "m k = (if s \<noteq> [] then Some (GText s) else None)"
  shows "sees_if (s \<noteq> []) raw k (cb_text A) s"
proof (rule sees_if_read [OF assms(1,3)])
  assume "s \<noteq> []" and held: "holds A raw k (GText s)"
  with assms(3) encodable_member(2) [OF assms(2), of k "GText s"] have "ascii s" by simp
  with held show "has_member raw k (cb_text A) s" by (rule holds_member)
qed

lemma sees_credential_read:
  assumes "reads A (GTextMap (descriptor c)) b" and "encodable (GTextMap (descriptor c))"
  shows "sees_credential A b c"
proof -
  obtain d where d: "cb_map_text A b = Inr d" "read_as A (descriptor c) d"
    by (rule reads_text_as [OF assms])
  note at = read_as_Some [OF d(2)] and ok = encodable_member(2) [OF assms(2)]
  have "has_member d ''type'' (cb_text A) (if c_Type c = [] then ''public-key'' else c_Type c)"
    using at [of "''type''"] ok [of "''type''"] by (intro holds_member) (auto simp: descriptor_members)
  moreover have "has_member d ''id'' (cb_bytes A) (c_ID c)"
    using at [of "''id''"] by (intro holds_member) (simp add: descriptor_members)
  moreover have "sees_if (c_Transports c \<noteq> []) d ''transports'' (cb_texts A) (c_Transports c)"
  proof (rule sees_if_read [OF d(2)])
    show "descriptor c ''transports'' =
        (if c_Transports c \<noteq> [] then Some (GArray (map GText (c_Transports c))) else None)"
      by (simp add: descriptor_members)
  next
    assume "c_Transports c \<noteq> []" and held: "holds A d ''transports'' (GArray (map GText (c_Transports c)))"
    then have "encodable (GArray (map GText (c_Transports c)))"
      using ok [of "''transports''"] by (simp add: descriptor_members)
    then show "has_member d ''transports'' (cb_texts A) (c_Transports c)"
      by (intro holds_member(5) [OF held]) auto
  qed
  ultimately show ?thesis using d(1) by (auto simp: sees_credential_def)
qed

lemma sees_credentials_read:
  assumes "read_as A m raw" and "m k = (if cs \<noteq> [] then Some (descriptors cs) else None)"
    and "cs \<noteq> [] \<Longrightarrow> encodable (descriptors cs)"
  shows "sees_credentials A raw k cs"
proof (cases "cs = []")
  case True
  with assms(2) show ?thesis using read_as_None [OF assms(1)] by (simp add: sees_credentials_def)
next
  case False
  with assms(2) have "holds A raw k (GArray (map (\<lambda>c. GTextMap (descriptor c)) cs))"
    using read_as_Some [OF assms(1)] by (simp add: descriptors_def)
  then obtain bs where bs: "has_member raw k (cb_raws A) bs"
    "list_all2 (reads A) (map (\<lambda>c. GTextMap (descriptor c)) cs) bs" by (rule holds_array)
  have "list_all2 (sees_credential A) bs cs"
    using bs(2) assms(3) [OF False] sees_credential_read
    by (simp add: descriptors_def list_all2_conv_all_nth)
  with False bs(1) show ?thesis by (auto simp: sees_credentials_def)
qed

lemma sees_options_read:
  assumes "read_as A m raw" and "m k = (if opts \<noteq> [] then Some (options_value opts) else None)"
    and "opts \<noteq> [] \<Longrightarrow> encodable (options_value opts)"
  shows "sees_options A raw k opts"
proof (cases "opts = []")
  case True
  with assms(2) show ?thesis using read_as_None [OF assms(1)] by (simp add: sees_options_def)
next
  case False
  with assms(2) have "holds A raw k (options_value opts)" using read_as_Some [OF assms(1)] by simp
  from holds_options [OF this assms(3) [OF False]] False show ?thesis by (simp add: sees_options_def)
qed

lemma sees_token_read:
  assumes "read_as A m raw" and "m kp = (if Token_Valid t then Some (GBytes (authParam t hash)) else None)"
    and "m kq = (if Token_Valid t then Some (GInt (Token_Protocol t)) else None)"
    and "Token_Valid t \<Longrightarrow> int64 (Token_Protocol t)"
  shows "sees_token A raw kp kq t hash"
  unfolding sees_token_def using assms
  by (auto intro!: sees_if_read [OF assms(1)] holds_member)

lemma sees_algorithm_read:
  assumes "reads A (GTextMap [''alg'' \<mapsto> GInt a, ''type'' \<mapsto> GText ''public-key'']) b" and "int64 a"
  shows "sees_algorithm A b a"
proof -
  let ?m = "[''alg'' \<mapsto> GInt a, ''type'' \<mapsto> GText ''public-key'']"
  have "encodable (GTextMap ?m)"
    using assms(2) unfolding encodable_map by (simp add: int64_def ascii_def)
  then obtain d where d: "cb_map_text A b = Inr d" "read_as A ?m d"
    by (rule reads_text_as [OF assms(1)])
  have "has_member d ''alg'' (cb_int A) a" "has_member d ''type'' (cb_text A) ''public-key''"
    using read_as_Some [OF d(2), of "''alg''"] read_as_Some [OF d(2), of "''type''"] assms(2)
    by (auto intro!: holds_member simp: ascii_def)
  with d(1) show ?thesis by (auto simp: sees_algorithm_def)
qed

lemma sees_algorithms_read:
  assumes "list_all2 (reads A) (map (\<lambda>a. GTextMap [''alg'' \<mapsto> GInt a, ''type'' \<mapsto> GText ''public-key'']) algs) bs"
    and "\<forall>a \<in> set algs. int64 a"
  shows "list_all2 (sees_algorithm A) bs algs"
  using assms sees_algorithm_read by (simp add: list_all2_conv_all_nth del: reads.simps)

text \<open>What the Go types of a request hold: algorithms and protocols are 64 bits wide.\<close>

definition typed_token :: "Token \<Rightarrow> bool" where
  "typed_token t \<longleftrightarrow> int64 (Token_Protocol t)"

lemma sees_registration_read:
  assumes "read_as A (\<lambda>k. mc_request r (uint k)) raw" and "encodable (GIntMap (mc_request r))"
    and "\<forall>a \<in> set (mr_Algorithms r). int64 a" and "typed_token (mr_Token r)"
  shows "sees_registration A raw r"
proof -
  note at = read_as_Some [OF assms(1)] and ok = encodable_member(1) [OF assms(2)]
  have "has_member raw 1 (cb_bytes A) (mr_ClientDataHash r)"
    using at [of 1] by (intro holds_member) (simp add: mc_request_members)
  moreover have "\<exists>rp. has_member raw 2 (cb_map_text A) rp \<and> has_member rp ''id'' (cb_text A) (rp_ID (mr_RP r)) \<and>
      has_member rp ''name'' (cb_text A) (rp_Name (mr_RP r))"
  proof -
    let ?m = "[''id'' \<mapsto> GText (rp_ID (mr_RP r)), ''name'' \<mapsto> GText (rp_Name (mr_RP r))]"
    have "holds A raw 2 (GTextMap ?m)" and enc: "encodable (GTextMap ?m)"
      using at [of 2] ok [of 2] by (simp_all add: mc_request_members)
    then obtain rp where rp: "has_member raw 2 (cb_map_text A) rp" "read_as A ?m rp" by (rule holds_text_map)
    have "has_member rp ''id'' (cb_text A) (rp_ID (mr_RP r))" "has_member rp ''name'' (cb_text A) (rp_Name (mr_RP r))"
      using read_as_Some [OF rp(2), of "''id''"] read_as_Some [OF rp(2), of "''name''"]
        encodable_member(2) [OF enc, of "''id''"] encodable_member(2) [OF enc, of "''name''"]
      by (auto intro!: holds_member)
    with rp(1) show ?thesis by blast
  qed
  moreover have "\<exists>u. has_member raw 3 (cb_map_text A) u \<and> has_member u ''id'' (cb_bytes A) (u_ID (mr_User r)) \<and>
      sees_if (u_Name (mr_User r) \<noteq> []) u ''name'' (cb_text A) (u_Name (mr_User r)) \<and>
      sees_if (u_DisplayName (mr_User r) \<noteq> []) u ''displayName'' (cb_text A) (u_DisplayName (mr_User r))"
  proof -
    define m where "m = userMap (mr_User r)"
    have "mc_request r 3 = Some (GTextMap m)" by (simp add: m_def mc_request_def mc_defs Let_def)
    then have "holds A raw 3 (GTextMap m)" and enc: "encodable (GTextMap m)"
      using at [of 3] ok [of 3] by simp_all
    then obtain u where u: "has_member raw 3 (cb_map_text A) u" "read_as A m u" by (rule holds_text_map)
    have m: "m ''id'' = Some (GBytes (u_ID (mr_User r)))"
      "m ''name'' = (if u_Name (mr_User r) \<noteq> [] then Some (GText (u_Name (mr_User r))) else None)"
      "m ''displayName'' = (if u_DisplayName (mr_User r) \<noteq> [] then Some (GText (u_DisplayName (mr_User r))) else None)"
      by (simp_all add: m_def userMap_def Let_def)
    have "has_member u ''id'' (cb_bytes A) (u_ID (mr_User r))"
      by (rule holds_member) (rule read_as_Some [OF u(2) m(1)])
    moreover have "sees_if (u_Name (mr_User r) \<noteq> []) u ''name'' (cb_text A) (u_Name (mr_User r))"
      by (rule sees_text_read [OF u(2) enc m(2)])
    moreover have "sees_if (u_DisplayName (mr_User r) \<noteq> []) u ''displayName'' (cb_text A) (u_DisplayName (mr_User r))"
      by (rule sees_text_read [OF u(2) enc m(3)])
    ultimately show ?thesis using u(1) by blast
  qed
  moreover have "\<exists>bs. has_member raw 4 (cb_raws A) bs \<and>
      list_all2 (sees_algorithm A) bs (if mr_Algorithms r = [] then [-7] else mr_Algorithms r)"
  proof -
    let ?algs = "if mr_Algorithms r = [] then [-7] else mr_Algorithms r"
    have "holds A raw 4 (GArray (map (\<lambda>a. GTextMap [''alg'' \<mapsto> GInt a, ''type'' \<mapsto> GText ''public-key'']) ?algs))"
      by (rule at) (simp add: mc_request_members)
    then obtain bs where bs: "has_member raw 4 (cb_raws A) bs"
      "list_all2 (reads A) (map (\<lambda>a. GTextMap [''alg'' \<mapsto> GInt a, ''type'' \<mapsto> GText ''public-key'']) ?algs) bs"
      by (rule holds_array)
    have typed: "\<forall>a \<in> set ?algs. int64 a" using assms(3) by (auto simp: int64_def)
    from sees_algorithms_read [OF bs(2) typed]
    show ?thesis using bs(1) by blast
  qed
  moreover have "sees_credentials A raw 5 (mr_Exclude r)"
    using ok [of 5] by (intro sees_credentials_read [OF assms(1)]) (auto simp: mc_request_members)
  moreover have "sees_options A raw 7 (mr_Options r)"
    using ok [of 7] by (intro sees_options_read [OF assms(1)]) (auto simp: mc_request_members)
  moreover have "sees_token A raw 8 9 (mr_Token r) (mr_ClientDataHash r)"
    using assms(4) by (intro sees_token_read [OF assms(1)]) (simp_all add: mc_request_members typed_token_def)
  ultimately show ?thesis unfolding sees_registration_def by blast
qed

lemma sees_assertion_read:
  assumes "read_as A (\<lambda>k. ga_request r (uint k)) raw" and "encodable (GIntMap (ga_request r))"
    and "typed_token (gr_Token r)"
  shows "sees_assertion A raw r"
proof -
  note at = read_as_Some [OF assms(1)] and ok = encodable_member(1) [OF assms(2)]
  have "has_member raw 1 (cb_text A) (gr_RPID r)"
    using at [of 1] ok [of 1] by (intro holds_member) (simp_all add: ga_request_members)
  moreover have "has_member raw 2 (cb_bytes A) (gr_ClientDataHash r)"
    using at [of 2] by (intro holds_member) (simp add: ga_request_members)
  moreover have "sees_credentials A raw 3 (gr_Allow r)"
    using ok [of 3] by (intro sees_credentials_read [OF assms(1)]) (auto simp: ga_request_members)
  moreover have "sees_options A raw 5 (gr_Options r)"
    using ok [of 5] by (intro sees_options_read [OF assms(1)]) (auto simp: ga_request_members)
  moreover have "sees_token A raw 6 7 (gr_Token r) (gr_ClientDataHash r)"
    using assms(3) by (intro sees_token_read [OF assms(1)]) (simp_all add: ga_request_members typed_token_def)
  ultimately show ?thesis unfolding sees_assertion_def by blast
qed

lemma request_keys:
  "\<forall>k \<in> dom (mc_request r). 0 \<le> k \<and> k < 2 ^ 64" "\<forall>k \<in> dom (ga_request q). 0 \<le> k \<and> k < 2 ^ 64"
  by (auto simp: mc_request_members ga_request_members split: if_splits)

section \<open>Replies read\<close>

lemma with_member_apply: "with_member k v m x = (if x = k then (case v of None \<Rightarrow> m k | Some v \<Rightarrow> Some v) else m x)"
  by (simp add: with_member_def split: option.split)

lemma attestation_members:
  "attestation_map format authData stmt = (\<lambda>k. if k = 1 then Some (GText format)
     else if k = 2 then Some (GBytes authData) else if k = 3 then stmt else None)"
  by (auto simp: attestation_map_def with_member_apply mc_defs fun_eq_iff split: option.split)

lemma assertion_members:
  "assertion_map authData sig cred user available = (\<lambda>k.
     if k = 1 then map_option (\<lambda>(ty, cid). GTextMap [''type'' \<mapsto> GText ty, ''id'' \<mapsto> GBytes cid]) cred
     else if k = 2 then Some (GBytes authData) else if k = 3 then Some (GBytes sig)
     else if k = 4 then map_option (\<lambda>uid. GTextMap [''id'' \<mapsto> GBytes uid]) user
     else if k = 5 then map_option (\<lambda>n. GInt (uint n)) available else None)"
  by (auto simp: assertion_map_def with_member_apply ga_defs fun_eq_iff split: option.split)

lemma reply_keys:
  "\<forall>k \<in> dom (attestation_map format authData stmt). 0 \<le> k \<and> k < 2 ^ 64"
  "\<forall>k \<in> dom (assertion_map authData sig cred user available). 0 \<le> k \<and> k < 2 ^ 64"
  by (auto simp: attestation_members assertion_members split: if_splits)

lemma parse_attestation_read:
  assumes "reads P (GIntMap (attestation_map format authData stmt)) body"
    and "encodable (GIntMap (attestation_map format authData stmt))"
    and "authData \<noteq> []" and "ParseAuthData P authData = Inr a" and "bit (ad_Flags a) 6"
  obtains st where "parse_attestation P body =
      Inr \<lparr>at_Format = format, at_AuthData = authData, at_Parsed = a, at_Statement = st\<rparr>"
    and "case stmt of None \<Rightarrow> st = [] | Some v \<Rightarrow> reads P v st"
proof -
  obtain raw where raw: "cb_map_u64 P body = Inr raw"
    and as: "read_as P (\<lambda>k. attestation_map format authData stmt (uint k)) raw"
    by (rule reads_u64_as [OF assms(1) reply_keys(1)])
  note at = read_as_Some [OF as]
  have "ascii format" using encodable_member(1) [OF assms(2), of 1] by (simp add: attestation_members)
  then have "has_member raw 1 (cb_text P) format" "has_member raw 2 (cb_bytes P) authData"
    using at [of 1] at [of 2] by (auto intro!: holds_member simp: attestation_members)
  with raw assms(3-5) have "parse_attestation P body = Inr \<lparr>at_Format = format, at_AuthData = authData,
      at_Parsed = a, at_Statement = (case raw 3 of None \<Rightarrow> [] | Some r \<Rightarrow> r)\<rparr>"
    by (auto simp: parse_attestation_eq_Inr has_member_def)
  moreover have "case stmt of None \<Rightarrow> (case raw 3 of None \<Rightarrow> [] | Some r \<Rightarrow> r) = []
      | Some v \<Rightarrow> reads P v (case raw 3 of None \<Rightarrow> [] | Some r \<Rightarrow> r)"
    using at [of 3] read_as_None [OF as, of 3]
    by (cases stmt) (auto simp: attestation_members holds_def)
  ultimately show ?thesis by (rule that)
qed

text \<open>The optional members of an assertion's reply.\<close>

lemma member_is_read:
  assumes "read_as P m raw" and "m k = map_option f v"
    and "\<And>x. v = Some x \<Longrightarrow> holds P raw k (f x) \<Longrightarrow> \<exists>r. raw k = Some r \<and> dec r = Inr (g x)"
  shows "member_is raw k dec z (case v of None \<Rightarrow> z | Some x \<Rightarrow> g x)"
  using assms read_as_Some [OF assms(1), of k] read_as_None [OF assms(1), of k]
  by (cases v) (auto simp: member_is_def)

lemma holds_structs:
  assumes "holds C raw k (GTextMap m)" and "encodable (GTextMap m)"
  obtains r where "raw k = Some r" and "reads_structs C m r"
proof -
  from assms(2) have "Ball (dom m) ascii" unfolding encodable_map by blast
  with assms(1) show ?thesis by (auto simp: holds_def intro: that)
qed

lemma holds_descriptor:
  assumes "holds C raw k (GTextMap [''type'' \<mapsto> GText ty, ''id'' \<mapsto> GBytes cid])"
    and "encodable (GTextMap [''type'' \<mapsto> GText ty, ''id'' \<mapsto> GBytes cid])" (is "encodable (GTextMap ?m)")
  shows "\<exists>r. raw k = Some r \<and> reply_credential C r = Inr \<lparr>c_Type = ty, c_ID = cid, c_Transports = []\<rparr>"
proof -
  obtain r where r: "raw k = Some r" "reads_structs C ?m r" by (rule holds_structs [OF assms])
  have "ascii ty" using encodable_member(2) [OF assms(2), of "''type''" "GText ty"] by simp
  moreover have "dom ?m \<subseteq> {''type'', ''id'', ''transports''}" by auto
  moreover have "?m ''type'' = Some (GText ty)" "?m ''id'' = Some (GBytes cid)" by simp_all
  ultimately have "cb_descriptor C r = Inr (ty, cid)" using r(2) unfolding reads_structs_def by blast
  with r(1) show ?thesis by (simp add: reply_credential_def)
qed

lemma holds_user:
  assumes "holds C raw k (GTextMap [''id'' \<mapsto> GBytes uid])" (is "holds C raw k (GTextMap ?m)")
  shows "\<exists>r. raw k = Some r \<and> cb_user C r = Inr uid"
proof -
  from assms obtain r where r: "raw k = Some r" "reads C (GTextMap ?m) r" by (auto simp: holds_def)
  have "Ball (dom ?m) ascii" by (simp add: ascii_def)
  with r(2) have "reads_structs C ?m r" by simp
  moreover have "dom ?m \<subseteq> {''id'', ''name'', ''displayName''}" "?m ''id'' = Some (GBytes uid)" by auto
  ultimately have "cb_user C r = Inr uid" unfolding reads_structs_def by blast
  with r(1) show ?thesis by blast
qed

definition credential_of :: "(string \<times> bytes) option \<Rightarrow> credential" where
  "credential_of cred = (case cred of None \<Rightarrow> zero_credential
     | Some (ty, cid) \<Rightarrow> \<lparr>c_Type = ty, c_ID = cid, c_Transports = []\<rparr>)"

definition or_zero :: "'a \<Rightarrow> 'a option \<Rightarrow> 'a" where
  "or_zero z v = (case v of None \<Rightarrow> z | Some x \<Rightarrow> x)"

lemma parse_assertion_read:
  assumes "reads P (GIntMap (assertion_map authData sig cred user available)) body"
    and "encodable (GIntMap (assertion_map authData sig cred user available))"
    and "authData \<noteq> []" and "ParseAuthData P authData = Inr a" and "sig \<noteq> []"
  shows "parse_assertion P body = Inr \<lparr>as_Credential = credential_of cred, as_AuthData = authData,
    as_Parsed = a, as_Signature = sig, as_UserID = or_zero [] user, as_Available = or_zero 0 available\<rparr>"
proof -
  let ?m = "assertion_map authData sig cred user available"
  obtain raw where raw: "cb_map_u64 P body = Inr raw" and as: "read_as P (\<lambda>k. ?m (uint k)) raw"
    by (rule reads_u64_as [OF assms(1) reply_keys(2)])
  note at = read_as_Some [OF as]
  have "has_member raw 2 (cb_bytes P) authData" "has_member raw 3 (cb_bytes P) sig"
    using at [of 2] at [of 3] by (auto intro!: holds_member simp: assertion_members)
  moreover have "member_is raw 1 (reply_credential P) zero_credential
      (case cred of None \<Rightarrow> zero_credential | Some c \<Rightarrow> (\<lambda>(ty, cid). \<lparr>c_Type = ty, c_ID = cid, c_Transports = []\<rparr>) c)"
  proof (rule member_is_read [OF as, where f = "\<lambda>(ty, cid). GTextMap [''type'' \<mapsto> GText ty, ''id'' \<mapsto> GBytes cid]"])
    fix c
    assume c: "cred = Some c"
      and held: "holds P raw 1 ((\<lambda>(ty, cid). GTextMap [''type'' \<mapsto> GText ty, ''id'' \<mapsto> GBytes cid]) c)"
    obtain ty cid where pair: "c = (ty, cid)" by fastforce
    have "encodable (GTextMap [''type'' \<mapsto> GText ty, ''id'' \<mapsto> GBytes cid])"
      by (rule encodable_member(1) [OF assms(2), of 1]) (simp add: assertion_members c pair)
    from holds_descriptor [OF held [unfolded pair split] this]
    show "\<exists>r. raw 1 = Some r \<and>
        reply_credential P r = Inr ((\<lambda>(ty, cid). \<lparr>c_Type = ty, c_ID = cid, c_Transports = []\<rparr>) c)"
      by (simp add: pair)
  qed (simp add: assertion_members)
  moreover have "member_is raw 4 (cb_user P) [] (case user of None \<Rightarrow> [] | Some x \<Rightarrow> x)"
    by (rule member_is_read [OF as, where f = "\<lambda>uid. GTextMap [''id'' \<mapsto> GBytes uid]"])
       (simp_all add: assertion_members holds_user)
  moreover have "member_is raw 5 (cb_uint P) 0 (case available of None \<Rightarrow> 0 | Some n \<Rightarrow> n)"
    by (rule member_is_read [OF as, where f = "\<lambda>n. GInt (uint n)"])
       (auto simp: assertion_members has_member_def dest: holds_member(4))
  ultimately show ?thesis
    using raw assms(3-5)
    by (auto simp: parse_assertion_eq_Inr has_member_def credential_of_def or_zero_def split: option.splits)
qed

section \<open>Played to the end\<close>

lemma watching_call:
  assumes "cb_map_u64 A b = Inr raw" and "length b < MaxMessage" and "length reply < MaxMessage"
  shows "call (watching A cmd reply) cmd b seen = (Inr reply, Some raw)"
  using assms by (simp add: call_def watching_def decodeRequest_def)

lemma cborCall_watched:
  assumes "plugged_in nonce ch caps (watching A cmd reply) k f" and "libraries P A"
    and "fits (GIntMap m)" and "\<forall>k \<in> dom m. 0 \<le> k \<and> k < 2 ^ 64" and "length reply < MaxMessage"
  obtains f' raw where "cborCall P k cmd m f = Some (Inr reply, f')"
    and "plugged_in nonce ch caps (watching A cmd reply) k f'" and "f_auth f' = Some raw"
    and "read_as A (\<lambda>k. m (uint k)) raw"
proof -
  obtain b f' where b: "reads A (GIntMap m) b" "length b < MaxMessage"
    and run: "cborCall P k cmd m f = Some (fst (call (watching A cmd reply) cmd b (f_auth f)), f')"
    "plugged_in nonce ch caps (watching A cmd reply) k f'"
    "f_auth f' = snd (call (watching A cmd reply) cmd b (f_auth f))"
    by (rule cborCall_calls [OF assms(1-3)])
  obtain raw where raw: "cb_map_u64 A b = Inr raw" "read_as A (\<lambda>k. m (uint k)) raw"
    by (rule reads_u64_as [OF b(1) assms(4)])
  with run watching_call [OF raw(1) b(2) assms(5)] show ?thesis by (intro that [of f' raw]) simp_all
qed

lemma MakeCredential_watched:
  assumes "plugged_in nonce ch caps (watching A CmdMakeCredential (marshal A (GIntMap (attestation_map format authData stmt)))) k f"
    and "bit caps 2" and "libraries P A"
    and "mr_ClientDataHash r \<noteq> []" and "rp_ID (mr_RP r) \<noteq> []" and "u_ID (mr_User r) \<noteq> []"
    and "fits (GIntMap (mc_request r))" and "\<forall>a \<in> set (mr_Algorithms r). int64 a" and "typed_token (mr_Token r)"
    and "fits (GIntMap (attestation_map format authData stmt))"
    and "authData \<noteq> []" and "ParseAuthData P authData = Inr a" and "bit (ad_Flags a) 6"
  obtains st f' raw where "MakeCredential P k r f =
      Some (Inr \<lparr>at_Format = format, at_AuthData = authData, at_Parsed = a, at_Statement = st\<rparr>, f')"
    and "case stmt of None \<Rightarrow> st = [] | Some v \<Rightarrow> reads P v st"
    and "f_auth f' = Some raw" and "sees_registration A raw r"
    and "plugged_in nonce ch caps (watching A CmdMakeCredential (marshal A (GIntMap (attestation_map format authData stmt)))) k f'"
proof -
  let ?m = "attestation_map format authData stmt"
  obtain body where body: "marshal A (GIntMap ?m) = body" "reads P (GIntMap ?m) body" "length body < MaxMessage"
    by (rule marshal_ok [OF assms(3,10)]) blast
  have small: "length (marshal A (GIntMap ?m)) < MaxMessage" using body by simp
  obtain f' raw where run: "cborCall P k CmdMakeCredential (mc_request r) f = Some (Inr (marshal A (GIntMap ?m)), f')"
    and after: "plugged_in nonce ch caps (watching A CmdMakeCredential (marshal A (GIntMap ?m))) k f'"
      "f_auth f' = Some raw"
    and seen: "read_as A (\<lambda>k. mc_request r (uint k)) raw"
    by (rule cborCall_watched [OF assms(1,3,7) request_keys(1) small])
  have "encodable (GIntMap ?m)" using assms(10) by (simp add: fits_def)
  then obtain st where st: "parse_attestation P body =
      Inr \<lparr>at_Format = format, at_AuthData = authData, at_Parsed = a, at_Statement = st\<rparr>"
    "case stmt of None \<Rightarrow> st = [] | Some v \<Rightarrow> reads P v st"
    by (rule parse_attestation_read [OF body(2) _ assms(11-13)])
  have "k_t k = Some (fake_key_transport nonce ch caps (watching A CmdMakeCredential (marshal A (GIntMap ?m))))"
    "bit (k_caps k) 2" using assms(1,2) by (simp_all add: plugged_in_def)
  note go = ready [OF this]
  have "MakeCredential P k r f =
      Some (Inr \<lparr>at_Format = format, at_AuthData = authData, at_Parsed = a, at_Statement = st\<rparr>, f')"
    using assms(4-6) run body(1) st(1) by (simp add: MakeCredential_def go)
  moreover have "sees_registration A raw r"
    using assms(7) by (intro sees_registration_read [OF seen _ assms(8,9)]) (simp add: fits_def)
  ultimately show ?thesis using st(2) after by (intro that)
qed

lemma GetAssertion_watched:
  assumes "plugged_in nonce ch caps (watching A CmdGetAssertion
      (marshal A (GIntMap (assertion_map authData sig cred user available)))) k f"
    and "bit caps 2" and "libraries P A"
    and "gr_RPID r \<noteq> []" and "gr_ClientDataHash r \<noteq> []"
    and "fits (GIntMap (ga_request r))" and "typed_token (gr_Token r)"
    and "fits (GIntMap (assertion_map authData sig cred user available))"
    and "authData \<noteq> []" and "ParseAuthData P authData = Inr a" and "sig \<noteq> []"
  obtains f' raw where "GetAssertion P k r f = Some (Inr \<lparr>as_Credential = credential_of cred,
      as_AuthData = authData, as_Parsed = a, as_Signature = sig, as_UserID = or_zero [] user,
      as_Available = or_zero 0 available\<rparr>, f')"
    and "f_auth f' = Some raw" and "sees_assertion A raw r"
    and "plugged_in nonce ch caps (watching A CmdGetAssertion
      (marshal A (GIntMap (assertion_map authData sig cred user available)))) k f'"
proof -
  let ?m = "assertion_map authData sig cred user available"
  obtain body where body: "marshal A (GIntMap ?m) = body" "reads P (GIntMap ?m) body" "length body < MaxMessage"
    by (rule marshal_ok [OF assms(3,8)]) blast
  have small: "length (marshal A (GIntMap ?m)) < MaxMessage" using body by simp
  obtain f' raw where run: "cborCall P k CmdGetAssertion (ga_request r) f = Some (Inr (marshal A (GIntMap ?m)), f')"
    and after: "plugged_in nonce ch caps (watching A CmdGetAssertion (marshal A (GIntMap ?m))) k f'"
      "f_auth f' = Some raw"
    and seen: "read_as A (\<lambda>k. ga_request r (uint k)) raw"
    by (rule cborCall_watched [OF assms(1,3,6) request_keys(2) small])
  have "encodable (GIntMap ?m)" using assms(8) by (simp add: fits_def)
  note parsed = parse_assertion_read [OF body(2) this assms(9-11)]
  have "k_t k = Some (fake_key_transport nonce ch caps (watching A CmdGetAssertion (marshal A (GIntMap ?m))))"
    "bit (k_caps k) 2" using assms(1,2) by (simp_all add: plugged_in_def)
  note go = ready [OF this]
  have "GetAssertion P k r f = Some (Inr \<lparr>as_Credential = credential_of cred,
      as_AuthData = authData, as_Parsed = a, as_Signature = sig, as_UserID = or_zero [] user,
      as_Available = or_zero 0 available\<rparr>, f')"
    using assms(4,5) run body(1) parsed by (simp add: GetAssertion_def go)
  moreover have "sees_assertion A raw r"
    using assms(6) by (intro sees_assertion_read [OF seen _ assms(7)]) (simp add: fits_def)
  ultimately show ?thesis using after by (intro that)
qed

text \<open>A key that says the same of itself whatever it is asked (\<open>TestGetInfoThroughTheWholeStack\<close>).\<close>

definition saying :: "bytes \<Rightarrow> byte \<Rightarrow> bytes \<Rightarrow> 'a \<Rightarrow> bytes option \<times> 'a" where
  "saying body cmd params a = (Some (StatusOK # body), a)"

definition texts :: "string list \<Rightarrow> gval" where
  "texts ss = GArray (map GText ss)"

definition info_map :: "Info \<Rightarrow> int \<Rightarrow> gval option" where
  "info_map i =
     [uint infoVersions \<mapsto> texts (i_Versions i), uint infoExtensions \<mapsto> texts (i_Extensions i),
      uint infoAAGUID \<mapsto> GBytes (i_AAGUID i), uint infoOptions \<mapsto> options_value (i_Options i),
      uint infoMaxMsgSize \<mapsto> GInt (uint (i_MaxMsgSize i)),
      uint infoPINProtocols \<mapsto> GArray (map (\<lambda>n. GInt (uint n)) (i_PINProtocols i)),
      uint infoTransports \<mapsto> texts (i_Transports i)]"

lemma info_members:
  "info_map i = (\<lambda>k. if k = 1 then Some (texts (i_Versions i)) else if k = 2 then Some (texts (i_Extensions i))
     else if k = 3 then Some (GBytes (i_AAGUID i)) else if k = 4 then Some (options_value (i_Options i))
     else if k = 5 then Some (GInt (uint (i_MaxMsgSize i)))
     else if k = 6 then Some (GArray (map (\<lambda>n. GInt (uint n)) (i_PINProtocols i)))
     else if k = 9 then Some (texts (i_Transports i)) else None)"
  by (auto simp: info_map_def info_key_defs fun_eq_iff)

lemma info_keys: "\<forall>k \<in> dom (info_map i). 0 \<le> k \<and> k < 2 ^ 64"
  by (auto simp: info_members split: if_splits)

lemma has_member_is: "has_member raw k dec v \<Longrightarrow> member_is raw k dec z v"
  by (auto simp: has_member_def member_is_def)

lemma parseInfo_read:
  assumes "reads P (GIntMap (info_map i)) body" and "encodable (GIntMap (info_map i))"
    and "i_Versions i \<noteq> []" and "length (i_AAGUID i) = 16" and "body \<noteq> []"
  shows "\<exists>opts. parseInfo P body = Inr (i\<lparr>i_Options := opts\<rparr>) \<and> map_of opts = map_of (i_Options i)"
proof -
  obtain raw where raw: "cb_map_u64 P body = Inr raw" and as: "read_as P (\<lambda>k. info_map i (uint k)) raw"
    by (rule reads_u64_as [OF assms(1) info_keys])
  note at = read_as_Some [OF as] and ok = encodable_member(1) [OF assms(2)]
  have strings: "member_is raw k (cb_texts P) [] ss" if "info_map i (uint k) = Some (texts ss)" for k ss
    using at [of k "texts ss"] ok [of "uint k" "texts ss"] that
    by (intro has_member_is holds_member) (simp_all add: texts_def)
  have "member_is raw 1 (cb_texts P) [] (i_Versions i)" "member_is raw 2 (cb_texts P) [] (i_Extensions i)"
    "member_is raw 9 (cb_texts P) [] (i_Transports i)"
    by (rule strings; simp add: info_members)+
  moreover have "member_is raw 3 (cb_bytes P) [] (i_AAGUID i)"
    using at [of 3] by (intro has_member_is holds_member) (simp add: info_members)
  moreover have "member_is raw 5 (cb_uint P) 0 (i_MaxMsgSize i)"
    using at [of 5] by (intro has_member_is holds_member) (simp add: info_members)
  moreover have "member_is raw 6 (cb_uints P) [] (i_PINProtocols i)"
    using at [of 6] by (intro has_member_is holds_member) (simp add: info_members)
  moreover obtain opts where "has_member raw 4 (cb_options P) opts" and opts: "map_of opts = map_of (i_Options i)"
  proof -
    have "holds P raw 4 (options_value (i_Options i))" "encodable (options_value (i_Options i))"
      using at [of 4] ok [of 4] by (simp_all add: info_members)
    from holds_options [OF this] show ?thesis using that by blast
  qed
  then have "member_is raw 4 (cb_options P) [] opts" by (intro has_member_is)
  ultimately have "parseInfo P body = Inr (i\<lparr>i_Options := opts\<rparr>)"
    using raw assms(3-5) unfolding parseInfo_eq_Inr
    by (intro conjI exI [of _ raw] exI [of _ "i_AAGUID i"]) auto
  with opts show ?thesis by blast
qed

lemma GetInfo_said:
  assumes "plugged_in nonce ch caps (saying (marshal A (GIntMap (info_map i)))) k f" and "bit caps 2"
    and "libraries P A" and "fits (GIntMap (info_map i))"
    and "i_Versions i \<noteq> []" and "length (i_AAGUID i) = 16"
  obtains opts f' where "GetInfo P k f = Some (Inr (i\<lparr>i_Options := opts\<rparr>), f')"
    and "map_of opts = map_of (i_Options i)"
    and "plugged_in nonce ch caps (saying (marshal A (GIntMap (info_map i)))) k f'"
proof -
  obtain body where body: "marshal A (GIntMap (info_map i)) = body" "reads P (GIntMap (info_map i)) body"
    "body \<noteq> []" "length body < MaxMessage" by (rule marshal_ok [OF assms(3,4)])
  obtain f' where "CBOR k CmdGetInfo [] f = Some (fst (call (saying body) CmdGetInfo [] (f_auth f)), f')"
    and after: "plugged_in nonce ch caps (saying body) k f'"
    by (rule CBOR_calls [OF assms(1) [unfolded body(1)], of CmdGetInfo "[]"])
  then have run: "CBOR k CmdGetInfo [] f = Some (Inr body, f')"
    using body(4) by (simp add: call_def saying_def wire_simps)
  have enc: "encodable (GIntMap (info_map i))" using assms(4) by (simp add: fits_def)
  obtain opts where parsed: "parseInfo P body = Inr (i\<lparr>i_Options := opts\<rparr>)" "map_of opts = map_of (i_Options i)"
    using parseInfo_read [OF body(2) enc assms(5,6) body(3)] by blast
  have "k_t k = Some (fake_key_transport nonce ch caps (saying body))" "bit (k_caps k) 2"
    using assms(1,2) body(1) by (simp_all add: plugged_in_def)
  then have "GetInfo P k f = Some (Inr (i\<lparr>i_Options := opts\<rparr>), f')"
    using run parsed(1) by (simp add: GetInfo_eq)
  then show ?thesis using parsed(2) after body(1) by (intro that [of opts f']) simp_all
qed

section \<open>What is asked of the two ends\<close>

definition complete_registration :: "MakeCredentialRequest \<Rightarrow> bool" where
  "complete_registration r \<longleftrightarrow> mr_ClientDataHash r \<noteq> [] \<and> rp_ID (mr_RP r) \<noteq> [] \<and> u_ID (mr_User r) \<noteq> [] \<and>
     (\<forall>a \<in> set (mr_Algorithms r). int64 a) \<and> typed_token (mr_Token r) \<and> fits (GIntMap (mc_request r))"

definition complete_assertion :: "GetAssertionRequest \<Rightarrow> bool" where
  "complete_assertion r \<longleftrightarrow> gr_RPID r \<noteq> [] \<and> gr_ClientDataHash r \<noteq> [] \<and> typed_token (gr_Token r) \<and>
     fits (GIntMap (ga_request r))"

text \<open>Authenticator data made by the specification's layout, of parts that are what they should be.\<close>

definition laid_out :: "cbor \<Rightarrow> auth_data \<Rightarrow> bytes \<Rightarrow> bool" where
  "laid_out P a authData \<longleftrightarrow> (\<exists>item ext. authData = auth_data_layout a item ext \<and>
     length (ad_RPIDHash a) = 32 \<and> attested_ok P a item \<and> extensions_ok P a ext)"

lemma laid_out_parsed:
  assumes "laid_out P a authData" and "cbor_documented P"
  shows "ParseAuthData P authData = Inr a" and "authData \<noteq> []"
  using assms layout_complete by (auto simp: laid_out_def auth_data_layout_def)

definition registering ::
    "cbor \<Rightarrow> string \<Rightarrow> bytes \<Rightarrow> gval option \<Rightarrow> (u64 \<Rightarrow> bytes option) option fake key \<Rightarrow>
      (u64 \<Rightarrow> bytes option) option fake \<Rightarrow> bool" where
  "registering A format authData stmt k f \<longleftrightarrow> bit (k_caps k) 2 \<and> fits (GIntMap (attestation_map format authData stmt)) \<and>
     (\<exists>nonce. plugged_in nonce (k_channel k) (k_caps k)
        (watching A CmdMakeCredential (marshal A (GIntMap (attestation_map format authData stmt)))) k f)"

definition asserting ::
    "cbor \<Rightarrow> bytes \<Rightarrow> bytes \<Rightarrow> (string \<times> bytes) option \<Rightarrow> bytes option \<Rightarrow> u64 option \<Rightarrow>
      (u64 \<Rightarrow> bytes option) option fake key \<Rightarrow> (u64 \<Rightarrow> bytes option) option fake \<Rightarrow> bool" where
  "asserting A authData sig cred user available k f \<longleftrightarrow>
     bit (k_caps k) 2 \<and> fits (GIntMap (assertion_map authData sig cred user available)) \<and>
     (\<exists>nonce. plugged_in nonce (k_channel k) (k_caps k)
        (watching A CmdGetAssertion (marshal A (GIntMap (assertion_map authData sig cred user available)))) k f)"

lemma registered:
  assumes "registering A format authData stmt k f" and "libraries P A" and "cbor_documented P"
    and "complete_registration r" and "laid_out P a authData" and "bit (ad_Flags a) 6"
  shows "\<exists>st f' raw. MakeCredential P k r f =
      Some (Inr \<lparr>at_Format = format, at_AuthData = authData, at_Parsed = a, at_Statement = st\<rparr>, f') \<and>
    (case stmt of None \<Rightarrow> st = [] | Some v \<Rightarrow> reads P v st) \<and>
    f_auth f' = Some raw \<and> sees_registration A raw r \<and> registering A format authData stmt k f'"
proof -
  from assms(1) obtain nonce where caps: "bit (k_caps k) 2"
    and reply: "fits (GIntMap (attestation_map format authData stmt))"
    and plug: "plugged_in nonce (k_channel k) (k_caps k)
      (watching A CmdMakeCredential (marshal A (GIntMap (attestation_map format authData stmt)))) k f"
    by (auto simp: registering_def)
  from assms(4) have r: "mr_ClientDataHash r \<noteq> []" "rp_ID (mr_RP r) \<noteq> []" "u_ID (mr_User r) \<noteq> []"
    "fits (GIntMap (mc_request r))" "\<forall>a \<in> set (mr_Algorithms r). int64 a" "typed_token (mr_Token r)"
    by (simp_all add: complete_registration_def)
  obtain st f' raw where "MakeCredential P k r f =
      Some (Inr \<lparr>at_Format = format, at_AuthData = authData, at_Parsed = a, at_Statement = st\<rparr>, f')"
    "case stmt of None \<Rightarrow> st = [] | Some v \<Rightarrow> reads P v st" "f_auth f' = Some raw" "sees_registration A raw r"
    and after: "plugged_in nonce (k_channel k) (k_caps k)
      (watching A CmdMakeCredential (marshal A (GIntMap (attestation_map format authData stmt)))) k f'"
    by (rule MakeCredential_watched [OF plug caps assms(2) r reply laid_out_parsed(2,1) [OF assms(5,3)] assms(6)])
  moreover from after caps reply have "registering A format authData stmt k f'"
    by (auto simp: registering_def)
  ultimately show ?thesis by blast
qed

lemma asserted:
  assumes "asserting A authData sig cred user available k f" and "libraries P A" and "cbor_documented P"
    and "complete_assertion r" and "laid_out P a authData" and "sig \<noteq> []"
  shows "\<exists>f' raw. GetAssertion P k r f = Some (Inr \<lparr>as_Credential = credential_of cred,
      as_AuthData = authData, as_Parsed = a, as_Signature = sig, as_UserID = or_zero [] user,
      as_Available = or_zero 0 available\<rparr>, f') \<and>
    f_auth f' = Some raw \<and> sees_assertion A raw r \<and> asserting A authData sig cred user available k f'"
proof -
  from assms(1) obtain nonce where caps: "bit (k_caps k) 2"
    and reply: "fits (GIntMap (assertion_map authData sig cred user available))"
    and plug: "plugged_in nonce (k_channel k) (k_caps k)
      (watching A CmdGetAssertion (marshal A (GIntMap (assertion_map authData sig cred user available)))) k f"
    by (auto simp: asserting_def)
  from assms(4) have r: "gr_RPID r \<noteq> []" "gr_ClientDataHash r \<noteq> []" "fits (GIntMap (ga_request r))"
    "typed_token (gr_Token r)" by (simp_all add: complete_assertion_def)
  obtain f' raw where "GetAssertion P k r f = Some (Inr \<lparr>as_Credential = credential_of cred,
      as_AuthData = authData, as_Parsed = a, as_Signature = sig, as_UserID = or_zero [] user,
      as_Available = or_zero 0 available\<rparr>, f')" "f_auth f' = Some raw" "sees_assertion A raw r"
    and after: "plugged_in nonce (k_channel k) (k_caps k)
      (watching A CmdGetAssertion (marshal A (GIntMap (assertion_map authData sig cred user available)))) k f'"
    by (rule GetAssertion_watched [OF plug caps assms(2) r reply laid_out_parsed(2,1) [OF assms(5,3)] assms(6)])
  moreover from after caps reply have "asserting A authData sig cred user available k f'"
    by (auto simp: asserting_def)
  ultimately show ?thesis by blast
qed

section \<open>Room for a token\<close>

lemma GIntMap_update:
  assumes "finite (dom m)" and "m k = None"
  shows "weight (GIntMap (m(k \<mapsto> v))) = weight (GIntMap m) + 9 + weight v"
    and "card (dom (m(k \<mapsto> v))) = Suc (card (dom m))" and "card (dom m) \<le> weight (GIntMap m)"
proof -
  have k: "k \<notin> dom m" using assms(2) by auto
  have "(\<Sum>x \<in> dom m. 9 + weight (the ((m(k \<mapsto> v)) x))) = (\<Sum>x \<in> dom m. 9 + weight (the (m x)))"
    using k by (intro sum.cong) auto
  with k assms(1) show "weight (GIntMap (m(k \<mapsto> v))) = weight (GIntMap m) + 9 + weight v"
    by (simp add: weight_map)
  show "card (dom (m(k \<mapsto> v))) = Suc (card (dom m))" using k assms(1) by simp
  have "card (dom m) = (\<Sum>x \<in> dom m. 1)" by simp
  also have "\<dots> \<le> (\<Sum>x \<in> dom m. 9 + weight (the (m x)))" by (rule sum_mono) simp
  finally show "card (dom m) \<le> weight (GIntMap m)" by (simp add: weight_map)
qed

lemma fits_update:
  assumes "fits (GIntMap m)" and "m k = None" and "- (2 ^ 63) \<le> k" and "k < 2 ^ 64"
    and "encodable v" and "nests v 31" and "weight (GIntMap m) + 9 + weight v < MaxMessage"
  shows "fits (GIntMap (m(k \<mapsto> v)))"
proof -
  from assms(1) have fin: "finite (dom m)" unfolding fits_def encodable_map by blast
  note up = GIntMap_update [OF fin assms(2)]
  have "card (dom m) < MaxMessage" using up(3) assms(7) by linarith
  then have "card (dom (m(k \<mapsto> v))) < 2 ^ 64" unfolding up(2) by (simp add: wire_simps)
  moreover have "encodable (GIntMap m)" "nests (GIntMap m) 32" using assms(1) by (simp_all add: fits_def)
  ultimately have "encodable (GIntMap (m(k \<mapsto> v)))" "nests (GIntMap (m(k \<mapsto> v))) 32"
    using assms(3-6) unfolding encodable_map nests_map by auto
  with up(1) assms(7) show ?thesis by (simp add: fits_def)
qed

lemma token_fits:
  assumes "fits (GIntMap m)" and "m p = None" and "m q = None" and "p \<noteq> q"
    and "p \<in> {0..<2 ^ 64}" and "q \<in> {0..<2 ^ 64}" and "proto \<in> {1, 2}" and "length tag \<le> 32"
    and "weight (GIntMap m) + 68 < MaxMessage"
  shows "fits (GIntMap (m(p \<mapsto> GBytes tag, q \<mapsto> GInt proto)))"
proof -
  have fin: "finite (dom m)" using assms(1) unfolding fits_def encodable_map by blast
  have "fits (GIntMap (m(p \<mapsto> GBytes tag)))"
    using assms by (intro fits_update) auto
  then show ?thesis
    using assms GIntMap_update(1) [OF fin assms(2)] by (intro fits_update) auto
qed

definition room_for_token :: "(int \<Rightarrow> gval option) \<Rightarrow> bool" where
  "room_for_token m \<longleftrightarrow> weight (GIntMap m) + 68 < MaxMessage"

text \<open>What an authenticator that holds the token computes for itself.\<close>

definition pin_auth_param :: "PINProtocol \<Rightarrow> bytes \<Rightarrow> bytes \<Rightarrow> bytes" where
  "pin_auth_param proto token data =
     (let h = hmac_sha256 token data in if proto = 1 then take 16 h else h)"

lemma authParam_eq: "authParam t data = pin_auth_param (Token_Protocol t) (t_raw t) data"
  by (simp add: authParam_def authenticate_def pin_auth_param_def Token_Protocol_def protocol_defs Let_def)

lemma length_pin_auth_param: "length (pin_auth_param proto token data) \<le> 32"
  by (simp add: pin_auth_param_def Let_def)

lemma complete_with_token:
  assumes "Token_Valid t" and "Token_Protocol t \<in> {1, 2}"
  shows "complete_registration (r\<lparr>mr_Token := zero_token\<rparr>) \<Longrightarrow> room_for_token (mc_request (r\<lparr>mr_Token := zero_token\<rparr>)) \<Longrightarrow>
      complete_registration (r\<lparr>mr_Token := t\<rparr>)"
    and "complete_assertion (q\<lparr>gr_Token := zero_token\<rparr>) \<Longrightarrow> room_for_token (ga_request (q\<lparr>gr_Token := zero_token\<rparr>)) \<Longrightarrow>
      complete_assertion (q\<lparr>gr_Token := t\<rparr>)"
proof -
  have typed: "typed_token t" using assms(2) by (auto simp: typed_token_def int64_def)
  show "complete_registration (r\<lparr>mr_Token := t\<rparr>)"
    if "complete_registration (r\<lparr>mr_Token := zero_token\<rparr>)" "room_for_token (mc_request (r\<lparr>mr_Token := zero_token\<rparr>))"
  proof -
    let ?m = "mc_request (r\<lparr>mr_Token := zero_token\<rparr>)"
    have "mc_request (r\<lparr>mr_Token := t\<rparr>) =
        ?m(8 \<mapsto> GBytes (authParam t (mr_ClientDataHash r)), 9 \<mapsto> GInt (Token_Protocol t))"
      using assms(1) by (auto simp: mc_request_members zero_token_def Token_Valid_def fun_eq_iff)
    moreover have "?m 8 = None" "?m 9 = None"
      by (simp_all add: mc_request_members zero_token_def Token_Valid_def)
    ultimately have "fits (GIntMap (mc_request (r\<lparr>mr_Token := t\<rparr>)))"
      using that assms(2) token_fits [of ?m 8 9 "Token_Protocol t" "authParam t (mr_ClientDataHash r)"]
      by (simp add: complete_registration_def room_for_token_def authParam_eq length_pin_auth_param)
    with that(1) typed show ?thesis by (simp add: complete_registration_def)
  qed
  show "complete_assertion (q\<lparr>gr_Token := t\<rparr>)"
    if "complete_assertion (q\<lparr>gr_Token := zero_token\<rparr>)" "room_for_token (ga_request (q\<lparr>gr_Token := zero_token\<rparr>))"
  proof -
    let ?m = "ga_request (q\<lparr>gr_Token := zero_token\<rparr>)"
    have "ga_request (q\<lparr>gr_Token := t\<rparr>) =
        ?m(6 \<mapsto> GBytes (authParam t (gr_ClientDataHash q)), 7 \<mapsto> GInt (Token_Protocol t))"
      using assms(1) by (auto simp: ga_request_members zero_token_def Token_Valid_def fun_eq_iff)
    moreover have "?m 6 = None" "?m 7 = None"
      by (simp_all add: ga_request_members zero_token_def Token_Valid_def)
    ultimately have "fits (GIntMap (ga_request (q\<lparr>gr_Token := t\<rparr>)))"
      using that assms(2) token_fits [of ?m 6 7 "Token_Protocol t" "authParam t (gr_ClientDataHash q)"]
      by (simp add: complete_assertion_def room_for_token_def authParam_eq length_pin_auth_param)
    with that(1) typed show ?thesis by (simp add: complete_assertion_def)
  qed
qed

section \<open>The key that was registered\<close>

lemma cose_of_fits:
  assumes "length x = 32" and "length y = 32"
  shows "fits (GIntMap (cose_of x y))" and "\<forall>k \<in> dom (cose_of x y). int64 k"
  using assms by (auto simp: fits_def cose_of_def cose_defs AlgES256_def wire_simps int64_def measure_map [of "_(_ := _)"])

lemma PublicKey_cose_of:
  assumes "libraries P A" and "length x = 32" and "length y = 32"
    and "IsOnCurve (int (SetBytes x)) (int (SetBytes y))"
    and "ad_COSEKey a = marshal A (GIntMap (cose_of x y))"
  shows "PublicKey P a = Inr \<lparr>ec_X = SetBytes x, ec_Y = SetBytes y\<rparr>"
proof -
  obtain b where b: "marshal A (GIntMap (cose_of x y)) = b" "reads P (GIntMap (cose_of x y)) b" "b \<noteq> []"
    by (rule marshal_ok [OF assms(1) cose_of_fits(1) [OF assms(2,3)]]) blast
  obtain m where m: "cb_map_i64 P b = Inr m"
    and members: "\<And>k v. cose_of x y k = Some v \<Longrightarrow> \<exists>r. m k = Some r \<and> reads P v r"
    using reads_i64 [OF b(2) cose_of_fits(2) [OF assms(2,3)]] by blast
  have held: "cose_of x y k = Some v \<Longrightarrow> holds P m k v" for k v
    using members by (simp add: holds_def)
  have "has_member m 1 (cb_int P) 2" "has_member m 3 (cb_int P) (-7)" "has_member m (-1) (cb_int P) 1"
    "has_member m (-2) (cb_bytes P) x" "has_member m (-3) (cb_bytes P) y"
    by (rule holds_member, rule held; simp add: cose_of_def cose_defs AlgES256_def int64_def)+
  then show ?thesis
    unfolding PublicKey_eq_Inr assms(5) b(1) using assms(2-4) b(3) m by blast
qed

section \<open>Samples\<close>

lemma build_eq: "build flags signs tail = map of_nat [0..<32] @ [flags] @ PutUint32 signs @ tail"
proof -
  obtain c0 c1 c2 c3 where c: "PutUint32 signs = [c0, c1, c2, c3]"
    using length_4_cases [of "PutUint32 signs"] by auto
  have "[0..<32 :: nat] = [0, 1, 2, 3, 4, 5, 6, 7, 8, 9, 10, 11, 12, 13, 14, 15, 16, 17, 18, 19, 20, 21, 22,
    23, 24, 25, 26, 27, 28, 29, 30, 31]" by (simp add: upt_rec)
  then show ?thesis
    by (simp add: build_def c auth_size_defs copy_at_def go_copy_def numeral_eq_Suc Let_def)
qed

text \<open>The tests' data has the layout of the specification.\<close>

definition sample_data :: "Flags \<Rightarrow> u32 \<Rightarrow> bytes \<Rightarrow> bytes \<Rightarrow> auth_data" where
  "sample_data flags signs cid item = \<lparr>ad_RPIDHash = map of_nat [0..<32], ad_Flags = flags, ad_SignCount = signs,
     ad_AAGUID = (if bit flags 6 then replicate 16 0xAB else make_bytes 16),
     ad_CredentialID = (if bit flags 6 then cid else []),
     ad_COSEKey = (if bit flags 6 then item else []), ad_Extensions = []\<rparr>"

lemma build_laid_out:
  assumes "\<not> bit flags 7" and "length cid < 2 ^ 16"
    and "item = marshal codec (GIntMap [1 \<mapsto> GInt 2, 3 \<mapsto> GInt (-7)])"
  shows "laid_out codec (sample_data flags signs cid item)
    (build flags signs (if bit flags 6 then attested codec cid [] else []))"
proof -
  have "\<exists>b. encode (GIntMap [1 \<mapsto> GInt 2, 3 \<mapsto> GInt (-7)]) = Some b"
    using encode_compact [of "GIntMap [1 \<mapsto> GInt 2, 3 \<mapsto> GInt (-7)]"] unfolding encodable_map by auto
  then have "is_item item" using encode_is_item by (auto simp: assms(3) marshal_def simp del: encode.simps)
  then have "cb_decode codec item = Inr (item, length item)"
    using split_item_append [of item "[]"] by (simp add: codec_def)
  with assms(1,2) have "attested_ok codec (sample_data flags signs cid item) item"
    "extensions_ok codec (sample_data flags signs cid item) []"
    by (simp_all add: attested_ok_def extensions_ok_def sample_data_def)
  moreover have "build flags signs (if bit flags 6 then attested codec cid [] else []) =
      auth_data_layout (sample_data flags signs cid item) item []"
    using assms(1) by (simp add: build_eq auth_data_layout_def sample_data_def attested_def Let_def
        aaguidLen_def assms(3) [symmetric])
  ultimately show ?thesis unfolding laid_out_def
    by (intro exI [of _ item] exI [of _ "[]"]) (simp add: sample_data_def)
qed

definition watch_key :: "byte \<Rightarrow> bytes \<Rightarrow> (u64 \<Rightarrow> bytes option) option fake key" where
  "watch_key cmd reply = \<lparr>k_t = Some (fake_key_transport sample_nonce 0xC7A9 4 (watching codec cmd reply)),
     k_channel = 0xC7A9, k_version = zero_version, k_caps = 4\<rparr>"

definition sample_registration :: MakeCredentialRequest where
  "sample_registration = \<lparr>mr_ClientDataHash = [1], mr_RP = \<lparr>rp_ID = ''example.test'', rp_Name = ''Example''\<rparr>,
     mr_User = \<lparr>u_ID = [7], u_Name = ''ada'', u_DisplayName = []\<rparr>, mr_Algorithms = [],
     mr_Exclude = [\<lparr>c_Type = [], c_ID = [9], c_Transports = [''usb'']\<rparr>], mr_Options = [], mr_Token = zero_token\<rparr>"

definition sample_assertion :: GetAssertionRequest where
  "sample_assertion = \<lparr>gr_RPID = ''example.test'', gr_ClientDataHash = [1],
     gr_Allow = [\<lparr>c_Type = [], c_ID = [9], c_Transports = []\<rparr>], gr_Options = [], gr_Token = zero_token\<rparr>"

lemmas request_simps = mc_request_def ga_request_def mc_defs ga_defs descriptors_def descriptor_def userMap_def
  zero_token_def Token_Valid_def Let_def ascii_def AlgES256_def

lemma sample_requests:
  "complete_registration sample_registration" "room_for_token (mc_request sample_registration)"
  "complete_assertion sample_assertion" "room_for_token (ga_request sample_assertion)"
  by (simp_all add: complete_registration_def complete_assertion_def room_for_token_def sample_registration_def
      sample_assertion_def request_simps fits_def wire_simps typed_token_def Token_Protocol_def int64_def
      measure_map [of "_(_ := _)"])

lemma sample_plugged:
  "plugged_in sample_nonce 0xC7A9 4 (watching codec cmd reply) (watch_key cmd reply) (newFake 0xC7A9 None)"
  by (simp add: plugged_in_def watch_key_def quiet_newFake BroadcastChannel_def)

lemma sample_watch_key [simp]:
  "k_channel (watch_key cmd reply) = 0xC7A9" "k_caps (watch_key cmd reply) = 4"
  by (simp_all add: watch_key_def)

lemma length_build_attested:
  "length (build flags signs (attested codec cid [])) \<le> 100 + length cid"
proof -
  have "weight (GIntMap [1 \<mapsto> GInt 2, 3 \<mapsto> GInt (-7)]) = 45" unfolding weight_map by simp
  then obtain b where "encode (GIntMap [1 \<mapsto> GInt 2, 3 \<mapsto> GInt (-7)]) = Some b" "length b \<le> 45"
    using encode_compact [of "GIntMap [1 \<mapsto> GInt 2, 3 \<mapsto> GInt (-7)]"] unfolding encodable_map by auto
  then show ?thesis
    by (simp add: build_eq attested_def marshal_def aaguidLen_def Let_def del: encode.simps)
qed

lemma sample_registering:
  fixes format :: string
  assumes "ascii format" and "length format \<le> 100" and "length authData \<le> 1000"
  shows "registering codec format authData None
    (watch_key CmdMakeCredential (marshal codec (GIntMap (attestation_map format authData None)))) (newFake 0xC7A9 None)"
proof -
  have "fits (GIntMap (attestation_map format authData None))"
    using assms by (simp add: attestation_map_def with_member_def mc_defs fits_def measure_map [of "_(_ := _)"] wire_simps)
  then show ?thesis
    using sample_plugged [of CmdMakeCredential "marshal codec (GIntMap (attestation_map format authData None))"]
    by (auto simp: registering_def bit_numeral_word_iff)
qed

lemma sample_asserting:
  assumes "length authData \<le> 1000" and "length sig \<le> 1000" and "length uid \<le> 1000"
  shows "asserting codec authData sig None (Some uid) (Some n)
    (watch_key CmdGetAssertion (marshal codec (GIntMap (assertion_map authData sig None (Some uid) (Some n)))))
    (newFake 0xC7A9 None)"
proof -
  have "- (2 ^ 63) \<le> uint n" "uint n < 2 ^ 64"
    using uint_lt2p [of n] by (simp_all add: order_trans [OF _ uint_nonnegative])
  then have "fits (GIntMap (assertion_map authData sig None (Some uid) (Some n)))"
    using assms by (simp add: assertion_map_def with_member_def ga_defs fits_def measure_map [of "_(_ := _)"]
        wire_simps ascii_def)
  then show ?thesis
    using sample_plugged [of CmdGetAssertion "marshal codec (GIntMap (assertion_map authData sig None (Some uid) (Some n)))"]
    by (auto simp: asserting_def bit_numeral_word_iff)
qed

section \<open>Properties\<close>

text \<open>
  C2. A registration, end to end: through the framing and the CBOR libraries of both sides, the
  authenticator sees every part of the caller's request under the number the specification gives
  it -- what was given is there, with ES256 and the type \<open>public-key\<close> filled in, and what was not
  given is absent -- and the caller gets back the format, the authenticator data, raw and
  parsed, and the statement that the authenticator sent.  The connection is ready for another.
\<close>

theorem registration_end_to_end:
  assumes "registering A format authData stmt k f" and "libraries P A" and "cbor_documented P"
    and "complete_registration r" and "laid_out P a authData" and "bit (ad_Flags a) 6"
  shows "\<exists>st f' raw. MakeCredential P k r f =
      Some (Inr \<lparr>at_Format = format, at_AuthData = authData, at_Parsed = a, at_Statement = st\<rparr>, f') \<and>
    (case stmt of None \<Rightarrow> st = [] | Some v \<Rightarrow> reads P v st) \<and>
    f_auth f' = Some raw \<and> sees_registration A raw r \<and> registering A format authData stmt k f'"
  by (rule registered [OF assms])

theorem registration_end_to_end_witness:
  "\<exists>k f' st raw. MakeCredential codec k sample_registration (newFake 0xC7A9 None) =
      Some (Inr \<lparr>at_Format = ''none'', at_AuthData = build 0x41 7 (attested codec [1, 2, 3] []),
        at_Parsed = sample_data 0x41 7 [1, 2, 3] (marshal codec (GIntMap [1 \<mapsto> GInt 2, 3 \<mapsto> GInt (-7)])),
        at_Statement = st\<rparr>, f') \<and>
    f_auth f' = Some raw \<and> st = [] \<and> sees_registration codec raw sample_registration"
proof -
  define item where "item = marshal codec (GIntMap [1 \<mapsto> GInt 2, 3 \<mapsto> GInt (-7)])"
  define data where "data = build 0x41 7 (attested codec [1, 2, 3] [])"
  have "laid_out codec (sample_data 0x41 7 [1, 2, 3] item) data"
    using build_laid_out [of "0x41" "[1, 2, 3]" item 7] by (simp add: item_def data_def bit_numeral_word_iff)
  moreover have "registering codec ''none'' data None
      (watch_key CmdMakeCredential (marshal codec (GIntMap (attestation_map ''none'' data None)))) (newFake 0xC7A9 None)"
    using length_build_attested [of "0x41" 7 "[1, 2, 3]"]
    by (intro sample_registering) (simp_all add: ascii_def data_def)
  moreover have "bit (ad_Flags (sample_data 0x41 7 [1, 2, 3] item)) 6"
    by (simp add: sample_data_def bit_numeral_word_iff)
  ultimately show ?thesis
    using registration_end_to_end [OF _ libraries_codec codec_documented sample_requests(1)]
    unfolding item_def [symmetric] data_def [symmetric] by fastforce
qed

text \<open>
  C5. The key that comes out of a registration is the key that went in: if the authenticator data
  holds, as its COSE key, a point of P-256 written by the authenticator's library, then the
  attestation's \<open>PublicKey\<close> is that point.
\<close>

theorem registered_key_is_the_keys:
  assumes "registering A format (auth_data_layout a (ad_COSEKey a) []) stmt k f" and "libraries P A"
    and "cbor_documented P" and "complete_registration r"
    and "length x = 32" and "length y = 32" and "IsOnCurve (int (SetBytes x)) (int (SetBytes y))"
    and "ad_COSEKey a = marshal A (GIntMap (cose_of x y))" and "bit (ad_Flags a) 6" and "\<not> bit (ad_Flags a) 7"
    and "length (ad_RPIDHash a) = 32" and "length (ad_AAGUID a) = 16" and "length (ad_CredentialID a) < 2 ^ 16"
    and "ad_Extensions a = []"
  shows "\<exists>att f'. MakeCredential P k r f = Some (Inr att, f') \<and> at_Parsed att = a \<and>
    PublicKey P (at_Parsed att) = Inr \<lparr>ec_X = SetBytes x, ec_Y = SetBytes y\<rparr>"
proof -
  have "cb_decode P (ad_COSEKey a) = Inr (ad_COSEKey a, length (ad_COSEKey a))"
    unfolding assms(8) by (rule marshal_item [OF assms(2) cose_of_fits(1) [OF assms(5,6)]])
  with assms(9-14) have "attested_ok P a (ad_COSEKey a)" "extensions_ok P a []"
    by (simp_all add: attested_ok_def extensions_ok_def)
  with assms(11) have "laid_out P a (auth_data_layout a (ad_COSEKey a) [])"
    unfolding laid_out_def by blast
  from registered [OF assms(1-4) this assms(9)] PublicKey_cose_of [OF assms(2,5-8)] show ?thesis by fastforce
qed

theorem registered_key_is_the_keys_witness:
  "\<exists>k att f'. MakeCredential codec k sample_registration
       (newFake 0xC7A9 (None :: (u64 \<Rightarrow> bytes option) option)) = Some (Inr att, f') \<and>
     PublicKey codec (at_Parsed att) = Inr \<lparr>ec_X = SetBytes Gx_bytes, ec_Y = SetBytes Gy_bytes\<rparr>"
proof -
  define key where "key = marshal codec (GIntMap (cose_of Gx_bytes Gy_bytes))"
  define a where "a = sample_data 0x41 7 [1, 2, 3] key"
  have size: "length Gx_bytes = 32" "length Gy_bytes = 32" by simp_all
  obtain b where "encode (GIntMap (cose_of Gx_bytes Gy_bytes)) = Some b"
    "length b \<le> weight (GIntMap (cose_of Gx_bytes Gy_bytes))"
    using encode_compact cose_of_fits(1) [OF size] unfolding fits_def by blast
  moreover have "weight (GIntMap (cose_of Gx_bytes Gy_bytes)) \<le> 200"
    using size by (simp add: cose_of_def cose_defs weight_map [of "_(_ := _)"])
  ultimately have "length key \<le> 200" by (simp add: key_def marshal_def del: encode.simps)
  then have key: "registering codec ''none'' (auth_data_layout a (ad_COSEKey a) []) None
      (watch_key CmdMakeCredential (marshal codec (GIntMap (attestation_map ''none''
        (auth_data_layout a (ad_COSEKey a) []) None)))) (newFake 0xC7A9 None)"
    by (intro sample_registering) (simp_all add: ascii_def auth_data_layout_def a_def sample_data_def bit_numeral_word_iff)
  have parts: "ad_COSEKey a = marshal codec (GIntMap (cose_of Gx_bytes Gy_bytes))" "bit (ad_Flags a) 6"
    "\<not> bit (ad_Flags a) 7" "length (ad_RPIDHash a) = 32" "length (ad_AAGUID a) = 16"
    "length (ad_CredentialID a) < 2 ^ 16" "ad_Extensions a = []"
    by (simp_all add: a_def key_def sample_data_def bit_numeral_word_iff)
  have "IsOnCurve (int (SetBytes Gx_bytes)) (int (SetBytes Gy_bytes))" using G_on_curve by simp
  from registered_key_is_the_keys [OF key libraries_codec codec_documented sample_requests(1) size this parts]
  show ?thesis by blast
qed

text \<open>
  C4. An assertion, end to end: the authenticator sees the relying party, the client data hash and
  the credentials allowed, and the caller gets back the authenticator data and the signature the
  authenticator sent, with the credential, the user handle and the count where it sent them and
  their zero values where it did not.
\<close>

theorem assertion_end_to_end:
  assumes "asserting A authData sig cred user available k f" and "libraries P A" and "cbor_documented P"
    and "complete_assertion r" and "laid_out P a authData" and "sig \<noteq> []"
  shows "\<exists>f' raw. GetAssertion P k r f = Some (Inr \<lparr>as_Credential = credential_of cred,
      as_AuthData = authData, as_Parsed = a, as_Signature = sig, as_UserID = or_zero [] user,
      as_Available = or_zero 0 available\<rparr>, f') \<and>
    f_auth f' = Some raw \<and> sees_assertion A raw r \<and> asserting A authData sig cred user available k f'"
  by (rule asserted [OF assms])

theorem assertion_end_to_end_witness:
  "\<exists>k f' raw. GetAssertion codec k sample_assertion (newFake 0xC7A9 None) =
      Some (Inr \<lparr>as_Credential = zero_credential, as_AuthData = build 5 7 [], as_Parsed = sample_data 5 7 [] [],
        as_Signature = [1, 2], as_UserID = [7], as_Available = 2\<rparr>, f') \<and>
    f_auth f' = Some raw \<and> sees_assertion codec raw sample_assertion"
proof -
  have "laid_out codec (sample_data 5 7 [] []) (build 5 7 [])"
    using build_laid_out [of 5 "[]" _ 7] by (simp add: bit_numeral_word_iff sample_data_def)
  moreover have "asserting codec (build 5 7 []) [1, 2] None (Some [7]) (Some 2)
    (watch_key CmdGetAssertion (marshal codec (GIntMap (assertion_map (build 5 7 []) [1, 2] None (Some [7]) (Some 2)))))
    (newFake 0xC7A9 None)"
    by (intro sample_asserting) (simp_all add: build_eq)
  ultimately show ?thesis
    using assertion_end_to_end [OF _ libraries_codec codec_documented sample_requests(3), of "build 5 7 []" "[1, 2]" None
        "Some [7]" "Some 2"]
    by (fastforce simp: credential_of_def or_zero_def)
qed

text \<open>
  C3. A PIN buys a registration and an assertion.  The token that the right PIN was exchanged for,
  put into a request, makes the request carry the protocol and the very parameter that the
  authenticator computes from its own token and the client data hash; and the request succeeds.
\<close>

theorem token_is_honoured:
  assumes "platform P A S k f" and "proto \<in> {1, 2}" and "pin \<noteq> []" and "short_name rpID"
    and "length (pa_token (f_auth f)) = 32" and "half_hash pin = half_hash (pa_pin (f_auth f))"
    and "cbor_documented P"
    and "registering A format authData stmt k2 f2" and "laid_out P a authData" and "bit (ad_Flags a) 6"
    and "complete_registration (r\<lparr>mr_Token := zero_token\<rparr>)" and "room_for_token (mc_request (r\<lparr>mr_Token := zero_token\<rparr>))"
    and "asserting A authData' sig cred user available k3 f3" and "laid_out P a' authData'" and "sig \<noteq> []"
    and "complete_assertion (q\<lparr>gr_Token := zero_token\<rparr>)" and "room_for_token (ga_request (q\<lparr>gr_Token := zero_token\<rparr>))"
  shows "\<exists>t f1. PINToken P (shared_seams S) k pin proto perms rpID f = Some (Inr t, f1) \<and>
    (\<exists>att f' raw. MakeCredential P k2 (r\<lparr>mr_Token := t\<rparr>) f2 = Some (Inr att, f') \<and> f_auth f' = Some raw \<and>
       has_member raw 8 (cb_bytes A) (pin_auth_param proto (pa_token (f_auth f)) (mr_ClientDataHash r)) \<and>
       has_member raw 9 (cb_int A) proto) \<and>
    (\<exists>as f' raw. GetAssertion P k3 (q\<lparr>gr_Token := t\<rparr>) f3 = Some (Inr as, f') \<and> f_auth f' = Some raw \<and>
       has_member raw 6 (cb_bytes A) (pin_auth_param proto (pa_token (f_auth f)) (gr_ClientDataHash q)) \<and>
       has_member raw 7 (cb_int A) proto)"
proof -
  have libs: "libraries P A" using assms(1) by (simp add: platform_def)
  obtain res f1 where run: "PINToken P (shared_seams S) k pin proto perms rpID f = Some (res, f1)"
    and res: "attempt_result (f_auth f) proto pin res"
    using attempt_platform [OF assms(1-5), of perms] by blast
  from res assms(6) obtain keys where "pk_proto keys = proto" "res = Inr \<lparr>t_keys = keys, t_raw = pa_token (f_auth f)\<rparr>"
    by (auto simp: attempt_result_def wrong_pin_def)
  then obtain t where t: "res = Inr t" "Token_Protocol t = proto" "t_raw t = pa_token (f_auth f)"
    by (simp add: Token_Protocol_def)
  then have valid: "Token_Valid t" "Token_Protocol t \<in> {1, 2}" using assms(2,5) by (auto simp: Token_Valid_def)
  note complete = complete_with_token [OF valid]
  have "\<exists>att f' raw. MakeCredential P k2 (r\<lparr>mr_Token := t\<rparr>) f2 = Some (Inr att, f') \<and> f_auth f' = Some raw \<and>
      sees_registration A raw (r\<lparr>mr_Token := t\<rparr>)"
    using registered [OF assms(8) libs assms(7) complete(1) [OF assms(11,12)] assms(9,10)] by blast
  moreover have "\<exists>as f' raw. GetAssertion P k3 (q\<lparr>gr_Token := t\<rparr>) f3 = Some (Inr as, f') \<and> f_auth f' = Some raw \<and>
      sees_assertion A raw (q\<lparr>gr_Token := t\<rparr>)"
    using asserted [OF assms(13) libs assms(7) complete(2) [OF assms(16,17)] assms(14,15)] by blast
  ultimately show ?thesis
    using run t valid
    by (auto simp: sees_registration_def sees_assertion_def sees_token_def sees_if_def authParam_eq)
qed

theorem token_is_honoured_witness:
  "\<exists>t f1 k att f' raw. PINToken codec (shared_seams fixed_seams) sample_key ''1234'' 2 3 ''example.test''
       (newFake 0xC7A9 sample_auth) = Some (Inr t, f1) \<and>
     MakeCredential codec k (sample_registration\<lparr>mr_Token := t\<rparr>) (newFake 0xC7A9 None) = Some (Inr att, f') \<and>
     f_auth f' = Some raw \<and>
     has_member raw (8 :: u64) (cb_bytes codec) (pin_auth_param 2 (replicate 32 7) [1]) \<and> has_member raw 9 (cb_int codec) 2"
proof -
  define item where "item = marshal codec (GIntMap [1 \<mapsto> GInt 2, 3 \<mapsto> GInt (-7)])"
  define data where "data = build 0x41 7 (attested codec [1, 2, 3] [])"
  have name: "short_name ''example.test''" by (simp add: short_name_def ascii_def)
  have auth: "f_auth (newFake 0xC7A9 sample_auth) = sample_auth" "pa_token sample_auth = replicate 32 7"
    "pa_pin sample_auth = ''1234''" by (simp_all add: newFake_def sample_auth_def)
  have laid: "laid_out codec (sample_data 0x41 7 [1, 2, 3] item) data"
    using build_laid_out [of "0x41" "[1, 2, 3]" item 7] by (simp add: item_def data_def bit_numeral_word_iff)
  have key: "registering codec ''none'' data None
      (watch_key CmdMakeCredential (marshal codec (GIntMap (attestation_map ''none'' data None)))) (newFake 0xC7A9 None)"
    using length_build_attested [of "0x41" 7 "[1, 2, 3]"]
    by (intro sample_registering) (simp_all add: ascii_def data_def)
  have flag: "bit (ad_Flags (sample_data 0x41 7 [1, 2, 3] item)) 6"
    by (simp add: sample_data_def bit_numeral_word_iff)
  have laid2: "laid_out codec (sample_data 5 7 [] []) (build 5 7 [])"
    using build_laid_out [of 5 "[]" _ 7] by (simp add: bit_numeral_word_iff sample_data_def)
  have key2: "asserting codec (build 5 7 []) [1, 2] None (Some [7]) (Some 2)
    (watch_key CmdGetAssertion (marshal codec (GIntMap (assertion_map (build 5 7 []) [1, 2] None (Some [7]) (Some 2)))))
    (newFake 0xC7A9 None)"
    by (intro sample_asserting) (simp_all add: build_eq)
  have zero: "sample_registration\<lparr>mr_Token := zero_token\<rparr> = sample_registration"
    "sample_assertion\<lparr>gr_Token := zero_token\<rparr> = sample_assertion"
    by (simp_all add: sample_registration_def sample_assertion_def)
  have hash: "mr_ClientDataHash sample_registration = [1]" by (simp add: sample_registration_def)
  have two: "(2 :: int) \<in> {1, 2}" and pin: "''1234'' \<noteq> []" and sig: "[1, 2 :: byte] \<noteq> []"
    and len: "length (pa_token (f_auth (newFake 0xC7A9 sample_auth))) = 32"
    and half: "half_hash ''1234'' = half_hash (pa_pin (f_auth (newFake 0xC7A9 sample_auth)))"
    by (simp_all add: auth)
  note honoured = token_is_honoured [OF sample_platform two pin name len half codec_documented key laid flag
      _ _ key2 laid2 sig, of sample_registration sample_assertion 3, unfolded zero hash auth]
  from honoured [OF sample_requests] show ?thesis by blast
qed

text \<open>
  C16. What a key says of itself arrives as it was said: \<open>GetInfo\<close> returns the versions,
  extensions, model, sizes, protocols and transports the authenticator wrote, and for every
  option the answer it gave, or none.
\<close>

theorem GetInfo_end_to_end:
  assumes "plugged_in nonce ch caps (saying (marshal A (GIntMap (info_map i)))) k f" and "bit caps 2"
    and "libraries P A" and "fits (GIntMap (info_map i))"
    and "i_Versions i \<noteq> []" and "length (i_AAGUID i) = 16"
  shows "\<exists>opts f'. GetInfo P k f = Some (Inr (i\<lparr>i_Options := opts\<rparr>), f') \<and>
    map_of opts = map_of (i_Options i) \<and>
    plugged_in nonce ch caps (saying (marshal A (GIntMap (info_map i)))) k f'"
  by (rule GetInfo_said [OF assms]) blast

definition sample_info :: Info where
  "sample_info = \<lparr>i_Versions = [''FIDO_2_0'', ''FIDO_2_1''], i_Extensions = [], i_AAGUID = replicate 16 0xB7,
     i_Options = [], i_MaxMsgSize = 1200, i_PINProtocols = [2, 1], i_Transports = [''usb'']\<rparr>"

lemma sample_info_fits: "fits (GIntMap (info_map sample_info))"
proof -
  have empty: "options_value [] = GTextMap Map.empty" by (simp add: options_value_def)
  show ?thesis
    by (simp add: fits_def info_map_def info_key_defs sample_info_def texts_def ascii_def wire_simps empty
        measure_map [of "_(_ := _)"] measure_map [of Map.empty])
qed

theorem GetInfo_end_to_end_witness:
  "\<exists>k opts f'. GetInfo codec k (newFake 0xC7A9 (3 :: nat)) = Some (Inr (sample_info\<lparr>i_Options := opts\<rparr>), f') \<and>
     map_of opts = Map.empty"
proof -
  define reply where "reply = marshal codec (GIntMap (info_map sample_info))"
  define k where "k = \<lparr>k_t = Some (fake_key_transport sample_nonce 0xC7A9 4 (saying reply :: byte \<Rightarrow> bytes \<Rightarrow> nat \<Rightarrow> _)),
     k_channel = 0xC7A9, k_version = zero_version, k_caps = 4\<rparr>"
  have "plugged_in sample_nonce 0xC7A9 4 (saying reply) k (newFake 0xC7A9 (3 :: nat))"
    by (simp add: plugged_in_def k_def quiet_newFake BroadcastChannel_def)
  from GetInfo_end_to_end [OF this [unfolded reply_def] _ libraries_codec sample_info_fits]
  obtain opts f' where "GetInfo codec k (newFake 0xC7A9 (3 :: nat)) = Some (Inr (sample_info\<lparr>i_Options := opts\<rparr>), f')"
    "map_of opts = map_of (i_Options sample_info)"
    by (auto simp: bit_numeral_word_iff sample_info_def)
  then show ?thesis by (auto simp: sample_info_def)
qed

end
