(* ===== verification/Fixtures.thy ===== *)
theory Fixtures
  imports CredPeer Conduct
begin

text \<open>
  The two replies under \<open>testdata\<close>, neither of which was made by this program: what a YubiKey answered
  to \<open>GetInfo\<close> (\<open>ctap2_test.go\<close>), and the authenticator data of a registration from another
  implementation's tests (\<open>authdata_test.go\<close>).  The model is run on them with the library of \<open>Codec\<close>,
  alone and through every layer, and gives what the tests expect and more.  Then the claims of the
  fuzz targets (\<open>fuzz_test.go\<close>), for every input.
\<close>

section \<open>Running the decoders\<close>

text \<open>
  Equations that decode a list of bytes from the front: the recursions over a count, unfolded once.
\<close>

lemma skip_items_next:
  "n \<noteq> 0 \<Longrightarrow> skip_items n (b # r) = (case read_head (b # r) of None \<Rightarrow> None
     | Some (major, v, r) \<Rightarrow>
         if major \<in> {0, 1, 7} then skip_items (n - 1) r
         else if major \<in> {2, 3} then if length r < v then None else skip_items (n - 1) (drop v r)
         else if major = 4 then skip_items (v + (n - 1)) r
         else if major = 5 then skip_items (2 * v + (n - 1)) r
         else skip_items n r)"
  by (subst skip_items.simps) simp

lemma skip_items_end: "n \<noteq> 0 \<Longrightarrow> skip_items n [] = None"
  by (subst skip_items.simps) simp

lemma read_entries_next:
  "n \<noteq> 0 \<Longrightarrow> read_entries n b = (case split_item b of None \<Rightarrow> None
     | Some (k, r) \<Rightarrow> (case split_item r of None \<Rightarrow> None
         | Some (v, r1) \<Rightarrow> map_option ((#) (k, v)) (read_entries (n - 1) r1)))"
  by (cases n) (auto split: option.splits)

lemma read_elements_next:
  "n \<noteq> 0 \<Longrightarrow> read_elements n b = (case split_item b of None \<Rightarrow> None
     | Some (v, r) \<Rightarrow> map_option ((#) v) (read_elements (n - 1) r))"
  by (cases n) (auto split: option.splits)

lemmas decoding = skip_items_next skip_items_end read_entries_next read_elements_next split_item_def SetBytes_def
  dec_map_def dec_entries_def dec_array_def dec_raws_def dec_text_def dec_string_def dec_bool_def
  dec_uint_def dec_int_def char_of_def bit_0

section \<open>The description of a real key\<close>

definition realGetInfo :: bytes where
  "realGetInfo =
    [0xB1, 0x01, 0x84, 0x66, 0x55, 0x32, 0x46, 0x5F, 0x56, 0x32, 0x68, 0x46, 0x49, 0x44, 0x4F, 0x5F, 0x32, 0x5F, 0x30, 0x6C,
     0x46, 0x49, 0x44, 0x4F, 0x5F, 0x32, 0x5F, 0x31, 0x5F, 0x50, 0x52, 0x45, 0x68, 0x46, 0x49, 0x44, 0x4F, 0x5F, 0x32, 0x5F,
     0x31, 0x02, 0x85, 0x6B, 0x63, 0x72, 0x65, 0x64, 0x50, 0x72, 0x6F, 0x74, 0x65, 0x63, 0x74, 0x6B, 0x68, 0x6D, 0x61, 0x63,
     0x2D, 0x73, 0x65, 0x63, 0x72, 0x65, 0x74, 0x6C, 0x6C, 0x61, 0x72, 0x67, 0x65, 0x42, 0x6C, 0x6F, 0x62, 0x4B, 0x65, 0x79,
     0x68, 0x63, 0x72, 0x65, 0x64, 0x42, 0x6C, 0x6F, 0x62, 0x6C, 0x6D, 0x69, 0x6E, 0x50, 0x69, 0x6E, 0x4C, 0x65, 0x6E, 0x67,
     0x74, 0x68, 0x03, 0x50, 0xB7, 0xD3, 0xF6, 0x8E, 0x88, 0xA6, 0x47, 0x1E, 0x9E, 0xCF, 0x2D, 0xF2, 0x6D, 0x04, 0x1E, 0xDE,
     0x04, 0xAC, 0x62, 0x72, 0x6B, 0xF5, 0x62, 0x75, 0x70, 0xF5, 0x64, 0x70, 0x6C, 0x61, 0x74, 0xF4, 0x68, 0x61, 0x6C, 0x77,
     0x61, 0x79, 0x73, 0x55, 0x76, 0xF4, 0x68, 0x63, 0x72, 0x65, 0x64, 0x4D, 0x67, 0x6D, 0x74, 0xF5, 0x69, 0x61, 0x75, 0x74,
     0x68, 0x6E, 0x72, 0x43, 0x66, 0x67, 0xF5, 0x69, 0x63, 0x6C, 0x69, 0x65, 0x6E, 0x74, 0x50, 0x69, 0x6E, 0xF4, 0x6A, 0x6C,
     0x61, 0x72, 0x67, 0x65, 0x42, 0x6C, 0x6F, 0x62, 0x73, 0xF5, 0x6E, 0x70, 0x69, 0x6E, 0x55, 0x76, 0x41, 0x75, 0x74, 0x68,
     0x54, 0x6F, 0x6B, 0x65, 0x6E, 0xF5, 0x6F, 0x73, 0x65, 0x74, 0x4D, 0x69, 0x6E, 0x50, 0x49, 0x4E, 0x4C, 0x65, 0x6E, 0x67,
     0x74, 0x68, 0xF5, 0x70, 0x6D, 0x61, 0x6B, 0x65, 0x43, 0x72, 0x65, 0x64, 0x55, 0x76, 0x4E, 0x6F, 0x74, 0x52, 0x71, 0x64,
     0xF5, 0x75, 0x63, 0x72, 0x65, 0x64, 0x65, 0x6E, 0x74, 0x69, 0x61, 0x6C, 0x4D, 0x67, 0x6D, 0x74, 0x50, 0x72, 0x65, 0x76,
     0x69, 0x65, 0x77, 0xF5, 0x05, 0x19, 0x06, 0x00, 0x06, 0x82, 0x02, 0x01, 0x07, 0x08, 0x08, 0x18, 0x80, 0x09, 0x82, 0x63,
     0x6E, 0x66, 0x63, 0x63, 0x75, 0x73, 0x62, 0x0A, 0x83, 0xA2, 0x63, 0x61, 0x6C, 0x67, 0x26, 0x64, 0x74, 0x79, 0x70, 0x65,
     0x6A, 0x70, 0x75, 0x62, 0x6C, 0x69, 0x63, 0x2D, 0x6B, 0x65, 0x79, 0xA2, 0x63, 0x61, 0x6C, 0x67, 0x27, 0x64, 0x74, 0x79,
     0x70, 0x65, 0x6A, 0x70, 0x75, 0x62, 0x6C, 0x69, 0x63, 0x2D, 0x6B, 0x65, 0x79, 0xA2, 0x63, 0x61, 0x6C, 0x67, 0x38, 0x22,
     0x64, 0x74, 0x79, 0x70, 0x65, 0x6A, 0x70, 0x75, 0x62, 0x6C, 0x69, 0x63, 0x2D, 0x6B, 0x65, 0x79, 0x0B, 0x19, 0x10, 0x00,
     0x0C, 0xF4, 0x0D, 0x04, 0x0E, 0x1A, 0x00, 0x05, 0x07, 0x04, 0x0F, 0x18, 0x20, 0x10, 0x01, 0x14, 0x18, 0x64]"

definition realInfo :: Info where
  "realInfo =
     \<lparr>i_Versions = [''U2F_V2'', ''FIDO_2_0'', ''FIDO_2_1_PRE'', ''FIDO_2_1''],
      i_Extensions = [''credProtect'', ''hmac-secret'', ''largeBlobKey'', ''credBlob'', ''minPinLength''],
      i_AAGUID = [0xB7, 0xD3, 0xF6, 0x8E, 0x88, 0xA6, 0x47, 0x1E, 0x9E, 0xCF, 0x2D, 0xF2, 0x6D, 0x04, 0x1E, 0xDE],
      i_Options =
        [(''rk'', True), (''up'', True), (''plat'', False), (''alwaysUv'', False), (''credMgmt'', True),
         (''authnrCfg'', True), (''clientPin'', False), (''largeBlobs'', True), (''pinUvAuthToken'', True),
         (''setMinPINLength'', True), (''makeCredUvNotRqd'', True), (''credentialMgmtPreview'', True)],
      i_MaxMsgSize = 1536, i_PINProtocols = [2, 1], i_Transports = [''nfc'', ''usb'']\<rparr>"

lemma parseInfo_real: "parseInfo codec realGetInfo = Inr realInfo"
  unfolding realGetInfo_def
  by (simp add: parseInfo_def codec_def decoding info_get_def wrapExt_def infoVersions_def infoExtensions_def
      infoAAGUID_def infoOptions_def infoMaxMsgSize_def infoPINProtocols_def infoTransports_def realInfo_def go_copy_def)

text \<open>An option that is declared false is not one that is absent, though \<open>Has\<close> answers both alike.\<close>

lemma realInfo_options:
  "Info_Has realInfo ''rk'' \<and> Info_Has realInfo ''up'' \<and> \<not> Info_Has realInfo ''clientPin'' \<and>
   map_of (i_Options realInfo) ''clientPin'' = Some False \<and> map_of (i_Options realInfo) ''uv'' = None"
  by (simp add: realInfo_def Info_Has_def)

lemma realInfo_text:
  "Info_String realInfo = ''U2F_V2, FIDO_2_0, FIDO_2_1_PRE, FIDO_2_1; authnrCfg, credMgmt, '' @
     ''credentialMgmtPreview, largeBlobs, makeCredUvNotRqd, pinUvAuthToken, rk, setMinPINLength, up''"
  by (simp add: Info_String_def realInfo_def sort_Strings_def)

text \<open>\<open>TestGetInfoThroughTheWholeStack\<close>: the reply is cut into packets, put together again and read.\<close>

lemma GetInfo_through_the_stack:
  fixes a :: 'a
  assumes "length nonce = 8"
  shows "\<exists>k f1 f2. Open (\<lambda>n f. (Inr nonce, f))
      (fake_key_transport nonce 0xC7A9 (CapWink OR CapCBOR) (saying realGetInfo)) (newFake 0xC7A9 a) = Some (Inr k, f1) \<and>
    GetInfo codec k f1 = Some (Inr realInfo, f2)"
proof -
  obtain k f1 where opened: "Open (\<lambda>n f. (Inr nonce, f))
      (fake_key_transport nonce 0xC7A9 (CapWink OR CapCBOR) (saying realGetInfo)) (newFake 0xC7A9 a) = Some (Inr k, f1)"
    and plug: "plugged_in nonce 0xC7A9 (CapWink OR CapCBOR) (saying realGetInfo) k f1"
    by (rule Open_fake [where randomNonce = "\<lambda>n f. (Inr nonce, f)" and f = "newFake 0xC7A9 a" and nonce = nonce
        and ch = "0xC7A9" and caps = "CapWink OR CapCBOR" and reply = "saying realGetInfo", OF refl assms _ quiet_newFake]) (simp_all add: BroadcastChannel_def)
  obtain f2 where "CBOR k CmdGetInfo [] f1 = Some (fst (call (saying realGetInfo) CmdGetInfo [] (f_auth f1)), f2)"
    by (rule CBOR_calls [OF plug, of CmdGetInfo "[]"])
  then have "CBOR k CmdGetInfo [] f1 = Some (Inr realGetInfo, f2)"
    by (simp add: call_def saying_def wire_simps realGetInfo_def)
  moreover from plug have "k_t k = Some (fake_key_transport nonce 0xC7A9 (CapWink OR CapCBOR) (saying realGetInfo))"
    "bit (k_caps k) 2"
    by (simp_all add: plugged_in_def CapWink_def CapCBOR_def bit_simps)
  ultimately have "GetInfo codec k f1 = Some (Inr realInfo, f2)"
    by (simp add: GetInfo_eq parseInfo_real)
  with opened show ?thesis by blast
qed

section \<open>The reference sample\<close>

definition referenceAuthData :: bytes where
  "referenceAuthData =
    [0x95, 0x69, 0x08, 0x8F, 0x1E, 0xCE, 0xE3, 0x23, 0x29, 0x54, 0x03, 0x5D, 0xBD, 0x10, 0xD7, 0xCA, 0xE3, 0x91, 0x30, 0x5A,
     0x27, 0x51, 0xB5, 0x59, 0xBB, 0x8F, 0xD7, 0xCB, 0xB2, 0x29, 0xBD, 0xD4, 0x41, 0x00, 0x00, 0x00, 0x00, 0x00, 0x00, 0x00,
     0x00, 0x00, 0x00, 0x00, 0x00, 0x00, 0x00, 0x00, 0x00, 0x00, 0x00, 0x00, 0x00, 0x00, 0x40, 0x89, 0xE2, 0xB3, 0x3C, 0x5C,
     0x1A, 0x78, 0x6E, 0xA5, 0xD3, 0xC5, 0x38, 0x72, 0x48, 0x9B, 0xA7, 0x6C, 0x72, 0xB5, 0x82, 0x0B, 0x68, 0x7C, 0xC4, 0x78,
     0x9C, 0x04, 0xCB, 0xBD, 0xD5, 0x31, 0xC3, 0xD2, 0x47, 0x4E, 0x74, 0x1D, 0x10, 0x42, 0xD9, 0x1A, 0x12, 0x7F, 0xBA, 0x29,
     0xFB, 0x1F, 0x4F, 0x5A, 0x37, 0x36, 0x69, 0x85, 0x4F, 0xC6, 0x1F, 0x5E, 0xB1, 0xBB, 0xDF, 0x85, 0x9F, 0x55, 0x29, 0xA5,
     0x01, 0x02, 0x03, 0x26, 0x20, 0x01, 0x21, 0x58, 0x20, 0xCA, 0x81, 0xC7, 0x7A, 0x25, 0x30, 0xE5, 0xA4, 0x9B, 0xB7, 0xCF,
     0xC6, 0xB0, 0xBF, 0x73, 0x6A, 0xA6, 0x46, 0x47, 0x35, 0x76, 0xE8, 0x0E, 0x32, 0xDC, 0x29, 0xC2, 0x19, 0x48, 0x55, 0x5E,
     0xEE, 0x22, 0x58, 0x20, 0x4C, 0x9D, 0xCF, 0x33, 0x6B, 0x9C, 0x60, 0x3F, 0x32, 0x32, 0x82, 0x78, 0x00, 0xBF, 0xD5, 0xBE,
     0xBD, 0x94, 0xCC, 0x18, 0x9C, 0x30, 0x65, 0xC3, 0x38, 0xB2, 0x38, 0xAA, 0x91, 0xC6, 0xFF, 0xD6]"


definition reference_x :: bytes where "reference_x = take 32 (drop 129 referenceAuthData)"
definition reference_y :: bytes where "reference_y = drop 164 referenceAuthData"

definition reference_data :: auth_data where
  "reference_data =
     \<lparr>ad_RPIDHash = take 32 referenceAuthData, ad_Flags = FlagUP OR FlagAT, ad_SignCount = 0,
      ad_AAGUID = make_bytes 16, ad_CredentialID = take 64 (drop 55 referenceAuthData),
      ad_COSEKey = drop 119 referenceAuthData, ad_Extensions = []\<rparr>"

lemmas parsing = ParseAuthData_eq parse_attested_def auth_size_defs Uint16_def zero_auth_data_def bytesReader_def
  wrapExt_def codec_def split_item_def skip_items_next skip_items_end SetBytes_def header_data_def
  parse_extensions_def Flags_Has_bit flag_defs Flags_Has_def

lemma ParseAuthData_reference: "ParseAuthData codec referenceAuthData = Inr reference_data"
  by (simp add: parsing referenceAuthData_def reference_data_def) (simp add: numeral_eq_Suc)

text \<open>The public key ends where the data ends: one byte less or more is noticed.\<close>

lemma ParseAuthData_one_less:
  "ParseAuthData codec (butlast referenceAuthData) = Inl (AuthData (PublicKeyNotCBOR ''not well-formed''))"
  by (simp add: parsing referenceAuthData_def)

lemma ParseAuthData_one_more:
  "ParseAuthData codec (referenceAuthData @ [b]) = Inl (AuthData (UnaccountedBytes 1))"
  by (simp add: parsing referenceAuthData_def)

lemma reference_data_text:
  "AuthData_String reference_data =
     ''rp 9569088f'' @ ellipsis @ '', present, attested, count 0, credential 89e2b33c'' @ ellipsis @ '' (64 bytes)''"
  by (simp add: AuthData_String_def reference_data_def referenceAuthData_def Flags_String_def flag_names_def
      Flags_Has_def flag_defs fmt_x_def hex_byte_def digit_def fmt_d_def digits.simps)

lemma reference_coordinates:
  "length reference_x = 32" "length reference_y = 32"
  "SetBytes reference_x = 0xca81c77a2530e5a49bb7cfc6b0bf736aa646473576e80e32dc29c21948555eee"
  "SetBytes reference_y = 0x4c9dcf336b9c603f3232827800bfd5bebd94cc189c3065c338b238aa91c6ffd6"
  by (simp_all add: reference_x_def reference_y_def referenceAuthData_def SetBytes_def)

lemma reference_key:
  "ad_COSEKey reference_data =
     [0xA5, 0x01, 0x02, 0x03, 0x26, 0x20, 0x01, 0x21, 0x58, 0x20] @ reference_x @ [0x22, 0x58, 0x20] @ reference_y"
  by (simp add: reference_data_def reference_x_def reference_y_def referenceAuthData_def)

lemma reference_key_map:
  "dec_map dec_int (ad_COSEKey reference_data) = Inr
     [1 \<mapsto> [2], 3 \<mapsto> [0x26], -1 \<mapsto> [1], -2 \<mapsto> [0x58, 0x20] @ reference_x, -3 \<mapsto> [0x58, 0x20] @ reference_y]"
  unfolding reference_key
  by (simp add: decoding reference_coordinates) (simp add: fun_eq_iff)

text \<open>
  \<open>TestPublicKeyOnTheReferenceSample\<close>.  That the point is on the curve tries the model's P-256 on a
  point it did not make.
\<close>

lemma reference_on_curve: "IsOnCurve (int (SetBytes reference_x)) (int (SetBytes reference_y))"
  unfolding reference_coordinates of_nat_numeral by code_simp

lemma PublicKey_reference:
  "PublicKey codec reference_data = Inr \<lparr>ec_X = SetBytes reference_x, ec_Y = SetBytes reference_y\<rparr>"
proof -
  have "ad_COSEKey reference_data \<noteq> []" by (simp add: reference_key)
  then show ?thesis
    using reference_on_curve
    by (simp add: PublicKey_eq_Inr codec_def reference_key_map has_member_def dec_int_def dec_string_def
        reference_coordinates SetBytes_def [of "[_]"] SetBytes_def [of "[]"])
qed

text \<open>
  \<open>TestMakeCredentialSendsWhatTheSpecificationNumbers\<close>: a registration that the sample answers.  The
  attestation holds the sample, its fields and its key, and the authenticator saw the request.
\<close>

lemma reference_laid_out: "laid_out codec reference_data referenceAuthData"
  using layout_sound [OF codec_documented ParseAuthData_reference] unfolding laid_out_def by metis

lemma MakeCredential_reference:
  assumes "complete_registration r"
  shows "\<exists>k att f raw. MakeCredential codec k r (newFake 0xC7A9 None) = Some (Inr att, f) \<and>
    at_Format att = ''none'' \<and> at_AuthData att = referenceAuthData \<and> at_Parsed att = reference_data \<and>
    PublicKey codec (at_Parsed att) = Inr \<lparr>ec_X = SetBytes reference_x, ec_Y = SetBytes reference_y\<rparr> \<and>
    f_auth f = Some raw \<and> sees_registration codec raw r"
proof -
  have "registering codec ''none'' referenceAuthData None
      (watch_key CmdMakeCredential (marshal codec (GIntMap (attestation_map ''none'' referenceAuthData None))))
      (newFake 0xC7A9 None)"
    by (rule sample_registering) (simp_all add: ascii_def referenceAuthData_def)
  moreover have "bit (ad_Flags reference_data) 6"
    by (simp add: reference_data_def flag_defs bit_simps)
  ultimately show ?thesis
    using registered [OF _ libraries_codec codec_documented assms reference_laid_out] PublicKey_reference by fastforce
qed

section \<open>The fuzz targets\<close>

text \<open>
  What \<open>fuzz_test.go\<close> tries on some inputs, for all of them and for any library.  \<open>chunks\<close> is how
  \<open>FuzzReassembler\<close> makes reports of its input: of 64 bytes each but for the last.
\<close>

function chunks :: "bytes \<Rightarrow> bytes list" where
  "chunks b = (if 0 < length b then let n = min ReportSize (length b) in take n b # chunks (drop n b) else [])"
  by pat_completeness auto
termination
  by (relation "measure length") (auto simp: wire_simps)

declare chunks.simps [simp del]

lemma chunks_Nil: "chunks [] = []"
  by (subst chunks.simps) simp

lemma chunks_step: "b \<noteq> [] \<Longrightarrow> chunks b = take ReportSize b # chunks (drop ReportSize b)"
  by (subst chunks.simps) (simp add: min_def Let_def)

lemma drop_report: "b \<noteq> [] \<Longrightarrow> length (drop ReportSize b) < length b"
  by (simp add: wire_simps)

lemma chunks_fit: "\<forall>p \<in> set (chunks b). length p \<le> ReportSize"
proof (induction b rule: measure_induct_rule [of length])
  case (less b)
  show ?case
  proof (cases "b = []")
    case False
    from less [OF drop_report [OF False]] show ?thesis
      unfolding chunks_step [OF False] by (simp only: list.set ball_simps length_take min.cobounded2)
  qed (simp add: chunks_Nil)
qed

lemma concat_chunks: "concat (chunks b) = b"
proof (induction b rule: measure_induct_rule [of length])
  case (less b)
  show ?case
  proof (cases "b = []")
    case False
    from less [OF drop_report [OF False]] show ?thesis
      unfolding chunks_step [OF False] by (simp only: concat.simps append_take_drop_id)
  qed (simp add: chunks_Nil)
qed

lemma FuzzReassembler_holds:
  assumes "Inr (Some m) \<in> set (fst (run_feed Feed (NewReassembler ch) (chunks b)))"
  shows "length (m_data m) \<le> MaxMessage"
  using run_feed_bounds [OF chunks_fit, of ch b] assms by blast

lemma PublicKey_no_panic: "\<not> panics (PublicKey C a)"
  unfolding PublicKey_def key_int_def key_coordinate_def Let_def by (intro no_panic) auto

lemma FuzzAuthData_holds:
  assumes "cbor_documented C"
  shows "\<not> panics (ParseAuthData C b) \<and> (\<forall>a. ParseAuthData C b = Inr a \<longrightarrow> \<not> panics (PublicKey C a) \<and>
     (\<forall>k. PublicKey C a = Inr k \<longrightarrow> IsOnCurve (int (ec_X k)) (int (ec_Y k))))"
  using ParseAuthData_no_panic [OF assms] by (auto simp: PublicKey_no_panic PublicKey_eq_Inr)

lemma FuzzGetInfo_and_FuzzAgreementKey_hold: "\<not> panics (parseInfo C b) \<and> \<not> panics (coseToECDH C b)"
  by (simp add: parseInfo_no_panic coseToECDH_no_panic)

end
