(* ===== verification/Spec2Isabelle.thy ===== *)
theory Spec2Isabelle
  imports Conduct Fixtures
begin

text \<open>
  A model of \<open>github.com/go-authn/fido\<close>, a client of the FIDO client-to-authenticator protocol
  (CTAP) over 64-byte reports.

  \<^bold>\<open>The program.\<close>  A \<open>Transport\<close> (the caller's code) moves reports.  \<open>fido.go\<close> frames messages in
  them, \<open>Split\<close> on the way out and \<open>Reassembler.Feed\<close> on the way in.  \<open>key.go\<close> negotiates a
  channel (\<open>Open\<close>) and makes request and reply of the framing (\<open>roundTrip\<close>), waiting out keepalives.
  \<open>ctap2.go\<close> sends CTAP2 commands in it (\<open>CBOR\<close>) and reads \<open>GetInfo\<close>.  \<open>credential.go\<close> registers
  credentials and asks for assertions, whose authenticator data \<open>authdata.go\<close> parses and whose keys
  \<open>cose.go\<close> converts.  \<open>clientpin.go\<close> exchanges a PIN for a token under one of the two protocols of
  \<open>pinproto.go\<close>, and the token authorises later requests.

  \<^bold>\<open>Theories.\<close>  Each holds its part's types and operations, under the source's names, then their
  lemmas and properties.

  \<^item> \<open>Prelude\<close>: bytes, words, \<open>copy\<close>, big-endian integers (locale \<open>fixed_codec\<close>), flag bytes (locale
    \<open>flag_set\<close>).  \<open>Outcome\<close>: errors and panics as values, checked indexing, and operations on the world.
    \<open>GoText\<close>: what is used of \<open>fmt\<close>, \<open>strings\<close> and \<open>sort\<close>.
  \<^item> \<open>Framing\<close> (\<open>fido.go\<close>): \<open>Split\<close>, \<open>Feed\<close>, and the two-state protocol machine that \<open>Feed\<close> is shown to
    refine; the locale \<open>framing\<close> is what a client of the framing relies on.  \<open>Handshake\<close> (\<open>fido.go\<close>):
    capabilities, versions, \<open>ParseInit\<close>.
  \<^item> \<open>Device\<close> (\<open>key.go\<close>): \<open>Open\<close>, \<open>roundTrip\<close>, \<open>Ping\<close>, \<open>Wink\<close>, \<open>Close\<close>; the events between the program and
    a transport as the step relation \<open>trace\<close>; and a scripted transport to run examples on.
  \<^item> \<open>Cbor\<close>: the CBOR library, a parameter.  \<open>Ctap2\<close> (\<open>ctap2.go\<close>): status codes, \<open>CBOR\<close>, \<open>GetInfo\<close>.
  \<^item> \<open>Authdata\<close> (\<open>authdata.go\<close>): flags, \<open>ParseAuthData\<close>, and the layout it is shown to accept.
  \<^item> \<open>Sha256\<close>, \<open>Aes\<close>, \<open>P256\<close>: what is used of Go's cryptography, executable (what they compute on
    published vectors was compared by evaluation, which is not repeated here); locales \<open>digest\<close> (HMAC
    and HKDF over a hash) and \<open>block_cipher\<close> (CBC over a cipher), interpreted on SHA-256 and on AES, for which decryption is proved to undo encryption.
  \<^item> \<open>Cose\<close> (\<open>cose.go\<close> and the conversions of \<open>clientpin.go\<close>), \<open>PinProto\<close> (\<open>pinproto.go\<close>; locale
    \<open>pin_protocol\<close>, interpreted on both protocols over any secret), \<open>ClientPin\<close> (\<open>clientpin.go\<close>),
    \<open>Credential\<close> (\<open>credential.go\<close>).
  \<^item> \<open>Conduct\<close>: what all operations on a key have in common.  This theory: the properties of the whole.
  \<^item> \<open>Codec\<close>: an encoder and decoders for the part of CBOR that the program speaks, which satisfy what is
    assumed of the library.  \<open>Peer\<close> (\<open>key_test.go\<close>, \<open>ctap2_test.go\<close>): the key the tests play against,
    with the failures they inject; a CTAP2 command over it is one call of the authenticator behind it
    (locale \<open>remote\<close>, interpreted on \<open>CBOR\<close>).  \<open>Exchange\<close>: what one library reads of what the other wrote.
  \<^item> \<open>PinPeer\<close> (\<open>clientpin_test.go\<close>): the authenticator's half of the PIN exchange, and the exchange played
    to its end between it and the program, through every layer; how tries are counted, on which the
    tests and the comments differ, is a parameter there (\<open>policy\<close>).  \<open>CredPeer\<close>
    (\<open>credential_test.go\<close>): authenticators that keep the request they see and answer it; registrations, assertions and
    descriptions played to their end, with and without a token bought by a PIN.  \<open>Fixtures\<close>
    (\<open>testdata\<close>, \<open>fuzz_test.go\<close>): the captured replies run through the model, and the claims of the
    fuzz targets for every input.

  \<^bold>\<open>State and effects.\<close>  The world \<open>'w\<close>, everything behind the transport and the randomness, is passed
  explicitly.  An operation returns \<open>None\<close> when it never returns: the loop of \<open>roundTrip\<close> is a
  \<open>partial_function\<close>, as only the context bounds it, and \<open>Receive\<close> may block.  That it returns is proved
  from a hypothesis on the transport alone (\<open>roundTrip_returns\<close>, \<open>operations_return\<close>), and that it need
  not otherwise is proved too (\<open>keepalives_are_waited_out\<close>).  No fuel is used: every other recursion is
  structural or has a measure.  A \<open>context.Context\<close> is part of the world, as it acts only through the
  transport.  The package's variables \<open>randomNonce\<close>, \<open>randRead\<close>, \<open>newECDHKey\<close> and \<open>hkdfKey\<close> are
  arguments.

  \<^bold>\<open>Not modelled.\<close>  The CBOR library is a record of functions.  Of a single library only
  \<open>cbor_documented\<close> is assumed; of two that talk to each other, in the theorems that go end to end,
  \<open>interoperate\<close> and \<open>compact\<close>, within the limits on depth and size that a decoder has.  So the
  encoding of a request is the library's, and the model of the program stops at the Go values handed
  to it, where a nil slice and an empty one are the same.  The texts of errors of Go's library are
  stand-ins.  The bound of a slice is its length, where Go's is the capacity.  \<open>Send\<close>, \<open>Name\<close> and \<open>Close\<close>
  of a transport return: only its \<open>Receive\<close> may block, so that a \<open>Send\<close> which never returns has no
  counterpart here.  Of the tests, the
  peers they play against, the captured replies and the claims of the fuzz targets are here; their
  other assertions are examples of what the properties say in general, and are left out.  So is the
  default of \<open>randomNonce\<close>, which only names the library's.
\<close>

section \<open>Properties that span the components\<close>

text \<open>
  C12. No operation on an open key panics, whatever the key answers: every index and slice of the
  program is within its bounds, from the reports of the framing to the authenticator data inside
  the CBOR inside the message.
\<close>

theorem no_operation_panics:
  assumes "k_t k = Some T" and "cbor_documented C"
  shows "calm (Ping k data) \<and> calm (Wink k) \<and> calm (CBOR k cmd params) \<and> calm (GetInfo C k) \<and>
    calm (PINRetries C k) \<and> calm (KeyAgreement C k proto) \<and>
    calm (PINToken C S k pin proto perms rpID) \<and>
    calm (MakeCredential C k r) \<and> calm (GetAssertion C k q)"
  by (intro conjI; (rule Ping_conduct Wink_conduct CBOR_conduct GetInfo_conduct PINRetries_conduct KeyAgreement_conduct
      PINToken_conduct MakeCredential_conduct GetAssertion_conduct); rule assms)

theorem no_operation_panics_witness:
  "calm (PINToken tiny_cbor fixed_seams (scripted_key 5 4) ''1234'' 2 3 ''example.com'')"
  using no_operation_panics [OF _ tiny_cbor_documented, of "scripted_key 5 4" scripted] by simp

text \<open>
  C24. Every operation on an open key returns when the transport's context has a deadline, whatever
  the key sends or does not send; the exchange of a PIN too, whatever its randomness does.
\<close>

theorem operations_return:
  assumes "k_t k = Some T" and "deadline T"
  shows "ends (Ping k data) \<and> ends (Wink k) \<and> ends (CBOR k cmd params) \<and> ends (GetInfo C k) \<and>
    ends (PINRetries C k) \<and> ends (KeyAgreement C k proto) \<and>
    ends (PINToken C S k pin proto perms rpID) \<and>
    ends (MakeCredential C k r) \<and> ends (GetAssertion C k q)"
  by (intro conjI; (rule Ping_conduct Wink_conduct CBOR_conduct GetInfo_conduct PINRetries_conduct KeyAgreement_conduct
      PINToken_conduct MakeCredential_conduct GetAssertion_conduct); rule assms)

lemma scripted_deadline: "deadline scripted"
  unfolding deadline_def
proof
  fix w
  show "\<exists>rs e w2. trace scripted w (received_all rs @ [Received (Inl e)]) w2"
    using scripted_receives [of w "s_inbox w" "[]"]
    by (intro exI [of _ "s_inbox w"] exI [of _ "''context deadline exceeded''"]
        exI [of _ "w\<lparr>s_inbox := []\<rparr>"])
      (auto simp: trace_append intro!: exI [of _ "w\<lparr>s_inbox := []\<rparr>"])
qed

theorem operations_return_witness:
  "\<exists>y. PINToken tiny_cbor fixed_seams (scripted_key 5 4) ''1234'' 2 3 ''example.com'' (script [[1], [2]]) = Some y"
proof -
  have "ends (PINToken tiny_cbor fixed_seams (scripted_key 5 4) ''1234'' 2 3 ''example.com'')"
    using operations_return [OF _ scripted_deadline, of "scripted_key 5 4"] by simp
  then show ?thesis by (simp add: ends_def)
qed



text \<open>
  C25. Nothing is sent to a key that does not speak CTAP2, nor for a request that lacks what the
  specification requires, nor for an empty PIN: each of these is refused, by name, with the world
  as it was.
\<close>

theorem refused_before_the_wire:
  assumes "k_t k = Some T"
  shows "MakeCredential C k r w =
     (if \<not> bit (k_caps k) 2 then Some (Inl (Ctap2 (NoCTAP2 (tr_Name T w))), w)
      else if mr_ClientDataHash r = [] then Some (Inl (Request Registration NoClientDataHash), w)
      else if rp_ID (mr_RP r) = [] then Some (Inl (Request Registration NoRelyingParty), w)
      else if u_ID (mr_User r) = [] then Some (Inl (Request Registration NoUserHandle), w)
      else bindIO (cborCall C k 0x01 (mc_request r)) (\<lambda>body. liftIO (parse_attestation C body)) w) \<and>
    GetAssertion C k q w =
     (if \<not> bit (k_caps k) 2 then Some (Inl (Ctap2 (NoCTAP2 (tr_Name T w))), w)
      else if gr_RPID q = [] then Some (Inl (Request AssertionRequest NoRelyingParty), w)
      else if gr_ClientDataHash q = [] then Some (Inl (Request AssertionRequest NoClientDataHash), w)
      else bindIO (cborCall C k 0x02 (ga_request q)) (\<lambda>body. liftIO (parse_assertion C body)) w) \<and>
    PINToken C S k [] proto perms rpID w =
      Some (Inl (if bit (k_caps k) 2 then Client EmptyPINGiven else Ctap2 (NoCTAP2 (tr_Name T w))), w) \<and>
    (\<not> bit (k_caps k) 2 \<longrightarrow>
      GetInfo C k w = Some (Inl (Ctap2 (NoCTAP2 (tr_Name T w))), w) \<and>
      PINRetries C k w = Some (Inl (Ctap2 (NoCTAP2 (tr_Name T w))), w) \<and>
      KeyAgreement C k proto w = Some (Inl (Ctap2 (NoCTAP2 (tr_Name T w))), w) \<and>
      PINToken C S k pin proto perms rpID w = Some (Inl (Ctap2 (NoCTAP2 (tr_Name T w))), w))"
  using ready [OF assms] not_ready [OF assms]
  by (cases "bit (k_caps k) 2")
     (simp_all add: MakeCredential_def GetAssertion_def PINToken_def PINRetries_def KeyAgreement_def
       GetInfo_eq [OF assms] ready [OF assms] not_ready [OF assms] CmdMakeCredential_def CmdGetAssertion_def)

theorem refused_before_the_wire_witness:
  "PINToken tiny_cbor fixed_seams (scripted_key 5 4) [] 2 0 [] (script []) = Some (Inl (Client EmptyPINGiven), script []) \<and>
   GetInfo tiny_cbor (scripted_key 5 1) (script []) = Some (Inl (Ctap2 (NoCTAP2 ''Test Key'')), script [])"
  using refused_before_the_wire [of "scripted_key 5 4" scripted tiny_cbor _ "script []" _ fixed_seams 2 0 "[]"]
    refused_before_the_wire [of "scripted_key 5 1" scripted tiny_cbor _ "script []"]
  by (simp add: bit_numeral_word_iff bit_1_iff)

text \<open>
  A token obtained with a PIN authorises the registrations and assertions that carry it: the
  request then states the protocol the token was obtained under and an authentication of the
  client data hash, of the length an authenticator of that protocol expects, and no other member
  changes.
\<close>

lemma token_authorises:
  assumes "PINToken C S k pin proto perms rpID w = Some (Inr t, w1)"
  shows "(let tag = authParam t (mr_ClientDataHash r) in
      mc_request (r\<lparr>mr_Token := t\<rparr>) =
        (mc_request (r\<lparr>mr_Token := zero_token\<rparr>))(8 \<mapsto> GBytes tag, 9 \<mapsto> GInt proto) \<and>
      length tag = (if proto = 1 then 16 else 32)) \<and>
    (let tag = authParam t (gr_ClientDataHash q) in
      ga_request (q\<lparr>gr_Token := t\<rparr>) =
        (ga_request (q\<lparr>gr_Token := zero_token\<rparr>))(6 \<mapsto> GBytes tag, 7 \<mapsto> GInt proto) \<and>
      length tag = (if proto = 1 then 16 else 32))"
proof -
  have t: "Token_Protocol t = proto" "Token_Valid t"
    "\<And>data. length (authParam t data) = (if proto = 1 then 16 else 32)"
    using PINToken_shape [OF assms] by blast+
  then show ?thesis
    by (auto simp: mc_request_def ga_request_def mc_defs ga_defs Let_def Token_Valid_def zero_token_def)
qed

text \<open>
  A CTAP2 command hears its answer through the traffic of a shared device: whatever reports of
  other channels and however many keepalives arrive, a reply under \<open>CTAPHID_CBOR\<close> ends the call,
  with the bytes behind a zero status, or as a refusal that names the device and the status.
\<close>

lemma CBOR_hears_the_answer:
  assumes "k_t k = Some T" and "k_channel k = ch" and "Split ch CmdCBOR (cmd # params) = Inr ps"
    and "trace T w (sent_all ps @ received_all (rs @ [r])) w2"
    and "filter (\<lambda>p. \<not> foreign_to ch p) (rs @ [r]) =
      concat (map reports_of busy) @ reports_of \<lparr>m_channel = ch, m_cmd = CmdCBOR, m_data = status # body\<rparr>"
    and "\<not> foreign_to ch r"
    and "\<forall>b \<in> set busy. sendable ch b \<and> m_cmd b = CmdKeepalive"
    and "length body < MaxMessage"
  shows "CBOR k cmd params w =
    Some (if status = 0 then Inr body else Inl (Ctap2 (StatusRefusal (tr_Name T w2) status)), w2)"
proof -
  have "sendable ch \<lparr>m_channel = ch, m_cmd = CmdCBOR, m_data = status # body\<rparr>"
    using assms(8) plain_commands(4) by (simp add: sendable_def plain_command_def)
  from roundTrip_hears [OF assms(1-7) this] show ?thesis
    by (simp add: CBOR_eq [OF assms(1)] CmdCBOR_def CmdKeepalive_def CmdError_def)
qed

end
